theory Spec2Isabelle
  imports Complex_Main
begin

section \<open>The jackknife analyzer: data model\<close>

text \<open>
  The class template \<open>JackknifeAnalyzer<K, T>\<close> of \<open>include/JackknifeAnalyzer.hh\<close> and
  \<open>include/detail/JackknifeAnalyzer.tcc\<close>. The key type \<open>K\<close> is the type variable
  \<open>'k\<close>. The arithmetic type \<open>T\<close> is taken to be the real numbers: sums, differences,
  quotients, squares and square roots are exact, and rounding of a floating-point \<open>T\<close> is
  not part of the model. The one exception is the pair \<open>sigma_T\<close> and \<open>jackknife\<close>,
  where the source computes one formula in two number types: they take the conversion to
  \<open>T\<close> as a parameter. Sizes and the bin count are \<open>std::size_t\<close> values; they are
  natural numbers here, and the places where the source subtracts sizes or divides by one
  are guarded below, so that no wrapped-around or zero divisor is ever used silently.

  The header names the private constant \<open>bin_omit_point_num\<close>, the implementation file
  names it \<open>bin_size\<close>; the model follows the implementation file.
\<close>

datatype error = RuntimeError string | OutOfRange

text \<open>
  What a \<open>const\<close> member function or an inner loop yields: a value, an exception
  (\<open>std::out_of_range\<close> of \<open>at\<close>), or nothing the source defines as a real number
  (an unchecked read past the end of a vector, a division by zero, a call whose arity the
  \<open>static_assert\<close> rejects).
\<close>

datatype 'a result = Returns 'a | Raises error | Undefined

record 'k analyzer =
  N_bins :: nat
  bin_size :: nat
  Xs_reduced_samples :: "'k \<rightharpoonup> real list"
  Xs_mu :: "'k \<rightharpoonup> real"

text \<open>
  What a mutating member function does: it returns normally with the updated object, or it
  throws and leaves the object in the state reached at the \<open>throw\<close>, or its behaviour
  is not defined by the source.
\<close>

datatype 'k outcome = Done "'k analyzer" | Throws error "'k analyzer" | No_Behaviour

definition less_than_2_bins :: string where
  "less_than_2_bins = ''trying to add dataset with less than 2 bins.''"

definition different_number_of_bins :: string where
  "different_number_of_bins =
     ''trying to add dataset with different number of bins than already existing ones.''"

text \<open>The first constructor: no datasets, \<open>N_bins { 0 }\<close>, the given bin size.\<close>

definition JackknifeAnalyzer :: "nat \<Rightarrow> 'k analyzer" where
  "JackknifeAnalyzer b =
     \<lparr>N_bins = 0, bin_size = b, Xs_reduced_samples = Map.empty, Xs_mu = Map.empty\<rparr>"

section \<open>Validation of the bin count\<close>

text \<open>
  \<open>init_or_verify_N(Xsamples, binned)\<close>. The quotient \<open>Xsamples.size() / bin_size\<close> is an
  integer division of \<open>std::size_t\<close>: with \<open>bin_size = 0\<close> it has no defined behaviour.
  The function's \<open>bool\<close> result is always \<open>true\<close> and no caller reads it.
\<close>

definition init_or_verify_N :: "'k analyzer \<Rightarrow> real list \<Rightarrow> bool \<Rightarrow> 'k outcome" where
  "init_or_verify_N s Xsamples binned =
     (if \<not> binned \<and> bin_size s = 0 then No_Behaviour
      else
        let num_bins = length Xsamples div (if binned then 1 else bin_size s) in
        if N_bins s = 0 then
          (if num_bins > 1 then Done (s\<lparr>N_bins := num_bins\<rparr>)
           else Throws (RuntimeError less_than_2_bins) s)
        else if num_bins \<noteq> N_bins s then Throws (RuntimeError different_number_of_bins) s
        else Done s)"

section \<open>Registration of datasets\<close>

text \<open>\<open>add_resampled(Xkey, Xjackknife_samples, mu_X)\<close>.\<close>

definition add_resampled :: "'k analyzer \<Rightarrow> 'k \<Rightarrow> real list \<Rightarrow> real \<Rightarrow> 'k outcome" where
  "add_resampled s Xkey Xjackknife_samples mu_X =
     (if Xs_reduced_samples s Xkey = None \<and> Xs_mu s Xkey = None then
        (case init_or_verify_N s Xjackknife_samples True of
           Done s1 \<Rightarrow>
             let s2 = s1\<lparr>Xs_reduced_samples := (Xs_reduced_samples s1)(Xkey \<mapsto> Xjackknife_samples)\<rparr>
             in Done (s2\<lparr>Xs_mu := (Xs_mu s2)(Xkey \<mapsto> mu_X)\<rparr>)
         | Throws e s1 \<Rightarrow> Throws e s1
         | No_Behaviour \<Rightarrow> No_Behaviour)
      else Done s)"

text \<open>
  The inner loop of \<open>resample\<close>:
  \<open>for (i = b * bin_size; i < next_bin_first_sample; ++i) red_sample -= Xsamples[i];\<close>
  The subscript is unchecked, so a read past the end is \<open>Undefined\<close>.
\<close>

function red_sample_loop :: "real list \<Rightarrow> nat \<Rightarrow> nat \<Rightarrow> real \<Rightarrow> real result" where
  "red_sample_loop Xsamples i next_bin_first_sample red_sample =
     (if i < next_bin_first_sample then
        (if i < length Xsamples then
           red_sample_loop Xsamples (i + 1) next_bin_first_sample (red_sample - Xsamples ! i)
         else Undefined)
      else Returns red_sample)"
  by pat_completeness auto
termination
  by (relation "measure (\<lambda>(Xsamples, i, next_bin, red). next_bin - i)") auto

declare red_sample_loop.simps [simp del]

text \<open>
  The outer loop of \<open>resample\<close>, over the bins \<open>b < N_bins\<close>. The divisor
  \<open>static_cast<T>(Xsamples.size() - bin_size)\<close> is a difference of sizes: where it would
  be zero or wrap around, the model yields \<open>Undefined\<close>. The products
  \<open>b * bin_size\<close> and \<open>(b + 1) * bin_size\<close> are at most the length of the vector
  whenever \<open>init_or_verify_N\<close> has accepted it, as is shown below, so they do not wrap
  around either.
\<close>

function red_samples_loop ::
  "'k analyzer \<Rightarrow> real list \<Rightarrow> real \<Rightarrow> nat \<Rightarrow> real list \<Rightarrow> real list result" where
  "red_samples_loop s Xsamples sum_samples b red_samples =
     (if b < N_bins s then
        (case red_sample_loop Xsamples (b * bin_size s) ((b + 1) * bin_size s) sum_samples of
           Returns red_sample \<Rightarrow>
             (if length Xsamples \<le> bin_size s then Undefined
              else red_samples_loop s Xsamples sum_samples (b + 1)
                     (red_samples @ [red_sample / real (length Xsamples - bin_size s)]))
         | Raises e \<Rightarrow> Raises e
         | Undefined \<Rightarrow> Undefined)
      else Returns red_samples)"
  by pat_completeness auto
termination
  by (relation "measure (\<lambda>(s, Xsamples, sum_samples, b, red_samples). N_bins s - b)") auto

declare red_samples_loop.simps [simp del]

text \<open>
  \<open>resample(Xkey, Xsamples)\<close>. The sum is accumulated from \<open>0\<close> in the order of the
  vector; the mean divides by \<open>static_cast<T>(Xsamples.size())\<close>, guarded against an empty
  vector.
\<close>

definition resample :: "'k analyzer \<Rightarrow> 'k \<Rightarrow> real list \<Rightarrow> 'k outcome" where
  "resample s Xkey Xsamples =
     (if Xs_reduced_samples s Xkey = None \<and> Xs_mu s Xkey = None then
        (case init_or_verify_N s Xsamples False of
           Done s1 \<Rightarrow>
             let sum_samples = fold (\<lambda>d acc. acc + d) Xsamples 0 in
             if length Xsamples = 0 then No_Behaviour
             else
               let s2 = s1\<lparr>Xs_mu := (Xs_mu s1)(Xkey \<mapsto> sum_samples / real (length Xsamples))\<rparr>
               in (case red_samples_loop s2 Xsamples sum_samples 0 [] of
                     Returns red_samples \<Rightarrow>
                       Done (s2\<lparr>Xs_reduced_samples :=
                                  (Xs_reduced_samples s2)(Xkey \<mapsto> red_samples)\<rparr>)
                   | Raises e \<Rightarrow> Throws e s2
                   | Undefined \<Rightarrow> No_Behaviour)
         | Throws e s1 \<Rightarrow> Throws e s1
         | No_Behaviour \<Rightarrow> No_Behaviour)
      else Done s)"

text \<open>The second constructor: the first one, then \<open>resample(Xkey, Xsamples)\<close>.\<close>

definition JackknifeAnalyzer_from :: "'k \<Rightarrow> real list \<Rightarrow> nat \<Rightarrow> 'k outcome" where
  "JackknifeAnalyzer_from Xkey Xsamples b = resample (JackknifeAnalyzer b) Xkey Xsamples"

section \<open>Functions of registered datasets\<close>

text \<open>
  The vector overload of \<open>add_function\<close>. Both argument loops push
  \<open>at(key)\<close> onto a vector; \<open>at\<close> throws \<open>std::out_of_range\<close> for a missing key
  or index. The user function \<open>F\<close> is a pure function of the argument vector.
\<close>

primrec args_mu_loop :: "'k analyzer \<Rightarrow> 'k list \<Rightarrow> real list \<Rightarrow> real list result" where
  "args_mu_loop s [] args_mu = Returns args_mu"
| "args_mu_loop s (key # keys) args_mu =
     (case Xs_mu s key of
        None \<Rightarrow> Raises OutOfRange
      | Some m \<Rightarrow> args_mu_loop s keys (args_mu @ [m]))"

primrec args_red_samples_loop ::
  "'k analyzer \<Rightarrow> nat \<Rightarrow> 'k list \<Rightarrow> real list \<Rightarrow> real list result" where
  "args_red_samples_loop s i [] args_red_samples = Returns args_red_samples"
| "args_red_samples_loop s i (key # keys) args_red_samples =
     (case Xs_reduced_samples s key of
        None \<Rightarrow> Raises OutOfRange
      | Some v \<Rightarrow>
          if i < length v then args_red_samples_loop s i keys (args_red_samples @ [v ! i])
          else Raises OutOfRange)"

function F_jackknife_samples_loop ::
  "'k analyzer \<Rightarrow> (real list \<Rightarrow> real) \<Rightarrow> 'k list \<Rightarrow> nat \<Rightarrow> real list \<Rightarrow> real list result" where
  "F_jackknife_samples_loop s F F_arg_keys i F_jackknife_samples =
     (if i < N_bins s then
        (case args_red_samples_loop s i F_arg_keys [] of
           Returns args_red_samples \<Rightarrow>
             F_jackknife_samples_loop s F F_arg_keys (i + 1)
               (F_jackknife_samples @ [F args_red_samples])
         | Raises e \<Rightarrow> Raises e
         | Undefined \<Rightarrow> Undefined)
      else Returns F_jackknife_samples)"
  by pat_completeness auto
termination
  by (relation "measure (\<lambda>(s, F, F_arg_keys, i, acc). N_bins s - i)") auto

declare F_jackknife_samples_loop.simps [simp del]

definition add_function ::
  "'k analyzer \<Rightarrow> 'k \<Rightarrow> (real list \<Rightarrow> real) \<Rightarrow> 'k list \<Rightarrow> 'k outcome" where
  "add_function s Fkey F F_arg_keys =
     (if Xs_reduced_samples s Fkey = None \<and> Xs_mu s Fkey = None then
        (case args_mu_loop s F_arg_keys [] of
           Returns args_mu \<Rightarrow>
             let s1 = s\<lparr>Xs_mu := (Xs_mu s)(Fkey \<mapsto> F args_mu)\<rparr> in
             (case F_jackknife_samples_loop s1 F F_arg_keys 0 [] of
                Returns F_jackknife_samples \<Rightarrow>
                  Done (s1\<lparr>Xs_reduced_samples :=
                             (Xs_reduced_samples s1)(Fkey \<mapsto> F_jackknife_samples)\<rparr>)
              | Raises e \<Rightarrow> Throws e s1
              | Undefined \<Rightarrow> No_Behaviour)
         | Raises e \<Rightarrow> Throws e s
         | Undefined \<Rightarrow> No_Behaviour)
      else Done s)"

text \<open>
  The variadic overload takes a function of \<open>n\<close> parameters of type \<open>T\<close> and \<open>n\<close>
  keys. Such a function is a curried function here: \<open>Param\<close> takes one more parameter,
  \<open>Value\<close> is the result once all parameters are supplied. Applying it to a number of
  arguments other than its arity is what the \<open>static_assert\<close> of the overload rejects.
\<close>

datatype nfun = Value real | Param "real \<Rightarrow> nfun"

primrec apply_nfun :: "nfun \<Rightarrow> real list \<Rightarrow> real result" where
  "apply_nfun (Value v) args = (case args of [] \<Rightarrow> Returns v | _ # _ \<Rightarrow> Undefined)"
| "apply_nfun (Param f) args =
     (case args of [] \<Rightarrow> Undefined | a # args' \<Rightarrow> apply_nfun (f a) args')"

text \<open>
  The pack expansions \<open>Xs_mu.at(F_arg_keys)...\<close> and
  \<open>Xs_reduced_samples.at(F_arg_keys).at(i)...\<close>: one \<open>at\<close> per key, and the call of
  \<open>F\<close> only when none of them has thrown.
\<close>

primrec mu_at_pack :: "'k analyzer \<Rightarrow> 'k list \<Rightarrow> real list result" where
  "mu_at_pack s [] = Returns []"
| "mu_at_pack s (key # keys) =
     (case Xs_mu s key of
        None \<Rightarrow> Raises OutOfRange
      | Some m \<Rightarrow>
          (case mu_at_pack s keys of
             Returns ms \<Rightarrow> Returns (m # ms)
           | Raises e \<Rightarrow> Raises e
           | Undefined \<Rightarrow> Undefined))"

primrec reduced_samples_at_pack :: "'k analyzer \<Rightarrow> nat \<Rightarrow> 'k list \<Rightarrow> real list result" where
  "reduced_samples_at_pack s i [] = Returns []"
| "reduced_samples_at_pack s i (key # keys) =
     (case Xs_reduced_samples s key of
        None \<Rightarrow> Raises OutOfRange
      | Some v \<Rightarrow>
          if i < length v then
            (case reduced_samples_at_pack s i keys of
               Returns ds \<Rightarrow> Returns (v ! i # ds)
             | Raises e \<Rightarrow> Raises e
             | Undefined \<Rightarrow> Undefined)
          else Raises OutOfRange)"

function F_jackknife_samples_pack_loop ::
  "'k analyzer \<Rightarrow> nfun \<Rightarrow> 'k list \<Rightarrow> nat \<Rightarrow> real list \<Rightarrow> real list result" where
  "F_jackknife_samples_pack_loop s F F_arg_keys i F_jackknife_samples =
     (if i < N_bins s then
        (case reduced_samples_at_pack s i F_arg_keys of
           Returns ds \<Rightarrow>
             (case apply_nfun F ds of
                Returns v \<Rightarrow>
                  F_jackknife_samples_pack_loop s F F_arg_keys (i + 1)
                    (F_jackknife_samples @ [v])
              | Raises e \<Rightarrow> Raises e
              | Undefined \<Rightarrow> Undefined)
         | Raises e \<Rightarrow> Raises e
         | Undefined \<Rightarrow> Undefined)
      else Returns F_jackknife_samples)"
  by pat_completeness auto
termination
  by (relation "measure (\<lambda>(s, F, F_arg_keys, i, acc). N_bins s - i)") auto

declare F_jackknife_samples_pack_loop.simps [simp del]

definition add_function_variadic :: "'k analyzer \<Rightarrow> 'k \<Rightarrow> nfun \<Rightarrow> 'k list \<Rightarrow> 'k outcome" where
  "add_function_variadic s Fkey F F_arg_keys =
     (if Xs_reduced_samples s Fkey = None \<and> Xs_mu s Fkey = None then
        (case mu_at_pack s F_arg_keys of
           Returns ms \<Rightarrow>
             (case apply_nfun F ms of
                Returns F_mu \<Rightarrow>
                  let s1 = s\<lparr>Xs_mu := (Xs_mu s)(Fkey \<mapsto> F_mu)\<rparr> in
                  (case F_jackknife_samples_pack_loop s1 F F_arg_keys 0 [] of
                     Returns F_jackknife_samples \<Rightarrow>
                       Done (s1\<lparr>Xs_reduced_samples :=
                                  (Xs_reduced_samples s1)(Fkey \<mapsto> F_jackknife_samples)\<rparr>)
                   | Raises e \<Rightarrow> Throws e s1
                   | Undefined \<Rightarrow> No_Behaviour)
              | Raises e \<Rightarrow> Throws e s
              | Undefined \<Rightarrow> No_Behaviour)
         | Raises e \<Rightarrow> Throws e s
         | Undefined \<Rightarrow> No_Behaviour)
      else Done s)"

section \<open>Removal and queries\<close>

text \<open>\<open>remove(Xkey)\<close>: \<open>erase\<close> on both maps.\<close>

definition remove :: "'k analyzer \<Rightarrow> 'k \<Rightarrow> 'k analyzer" where
  "remove s Xkey =
     (let s1 = s\<lparr>Xs_mu := (Xs_mu s)(Xkey := None)\<rparr>
      in s1\<lparr>Xs_reduced_samples := (Xs_reduced_samples s1)(Xkey := None)\<rparr>)"

definition mu :: "'k analyzer \<Rightarrow> 'k \<Rightarrow> real result" where
  "mu s Xkey = (case Xs_mu s Xkey of None \<Rightarrow> Raises OutOfRange | Some m \<Rightarrow> Returns m)"

definition samples :: "'k analyzer \<Rightarrow> 'k \<Rightarrow> real list result" where
  "samples s Xkey =
     (case Xs_reduced_samples s Xkey of None \<Rightarrow> Raises OutOfRange | Some v \<Rightarrow> Returns v)"

text \<open>
  \<open>sigma(Xkey)\<close>. The loop looks \<open>Xs_mu.at(Xkey)\<close> up once per replicate, so a key that
  has replicates but no mean throws only when the series is not empty. The factor
  \<open>((T) (N_bins - 1)) / ((T) N_bins)\<close> has a zero divisor when no bin count is set.
\<close>

primrec sigma_loop :: "'k analyzer \<Rightarrow> 'k \<Rightarrow> real list \<Rightarrow> real \<Rightarrow> real result" where
  "sigma_loop s Xkey [] sigma = Returns sigma"
| "sigma_loop s Xkey (d # ds) sigma =
     (case Xs_mu s Xkey of
        None \<Rightarrow> Raises OutOfRange
      | Some m \<Rightarrow> sigma_loop s Xkey ds (sigma + (d - m) ^ 2))"

definition sigma :: "'k analyzer \<Rightarrow> 'k \<Rightarrow> real result" where
  "sigma s Xkey =
     (case Xs_reduced_samples s Xkey of
        None \<Rightarrow> Raises OutOfRange
      | Some v \<Rightarrow>
          (case sigma_loop s Xkey v 0 of
             Returns sg \<Rightarrow>
               if N_bins s = 0 then Undefined
               else Returns (sqrt ((real (N_bins s - 1) / real (N_bins s)) * sg))
           | Raises e \<Rightarrow> Raises e
           | Undefined \<Rightarrow> Undefined))"

text \<open>
  \<open>sigma\<close> and \<open>jackknife\<close> compute the same formula in different number types:
  \<open>sigma\<close> accumulates the squares in a \<open>double\<close> and converts the result to \<open>T\<close>
  when it returns, \<open>jackknife\<close> accumulates them in its reference parameter of type \<open>T\<close>.
  To keep the two apart, the functions below take the conversion of a \<open>double\<close> value to
  \<open>T\<close> as a parameter \<open>to_T\<close>, applied wherever the source computes or stores a value of
  type \<open>T\<close>; operations on \<open>double\<close> stay exact. For \<open>T = double\<close> the conversion is the
  identity. \<open>pow\<close> and \<open>sqrt\<close> are the functions of \<open><math.h>\<close>, which take and return
  \<open>double\<close>. A value of type \<open>T\<close> is a real number, or an infinity or a NaN, which a
  division by zero in a floating type yields.
\<close>

datatype T_value = Finite real | Not_finite

text \<open>
  The conversion to \<open>float\<close> (IEEE 754 binary32, 24 significant bits, round to nearest,
  ties to even), for values in the normal range of the format.
\<close>

definition round_half_even :: "real \<Rightarrow> int" where
  "round_half_even r =
     (let f = \<lfloor>r\<rfloor> in
      if r - of_int f < 1 / 2 then f
      else if 1 / 2 < r - of_int f then f + 1
      else if even f then f else f + 1)"

definition binary32 :: "real \<Rightarrow> real" where
  "binary32 x =
     (if x = 0 then 0
      else
        let ulp = 2 powr (of_int \<lfloor>log 2 \<bar>x\<bar>\<rfloor> - 23)
        in ulp * of_int (round_half_even (x / ulp)))"

text \<open>
  \<open>sigma(Xkey)\<close> for a type \<open>T\<close> with conversion \<open>to_T\<close>: the difference
  \<open>d - Xs_mu.at(Xkey)\<close> is computed in \<open>T\<close>, its square and the sum in \<open>double\<close>.
  The quotient \<open>((T) (N_bins - 1)) / ((T) N_bins)\<close> is computed in \<open>T\<close>, its product
  with the \<open>double\<close> sum and the square root in \<open>double\<close>, and the \<open>return\<close>
  converts to \<open>T\<close>. With \<open>N_bins = 0\<close> the divisor \<open>(T) N_bins\<close> is zero and the
  result is not finite.
\<close>

primrec sigma_T_loop ::
  "(real \<Rightarrow> real) \<Rightarrow> 'k analyzer \<Rightarrow> 'k \<Rightarrow> real list \<Rightarrow> real \<Rightarrow> real result" where
  "sigma_T_loop to_T s Xkey [] sg = Returns sg"
| "sigma_T_loop to_T s Xkey (d # ds) sg =
     (case Xs_mu s Xkey of
        None \<Rightarrow> Raises OutOfRange
      | Some m \<Rightarrow> sigma_T_loop to_T s Xkey ds (sg + (to_T (d - m)) ^ 2))"

definition sigma_T :: "(real \<Rightarrow> real) \<Rightarrow> 'k analyzer \<Rightarrow> 'k \<Rightarrow> T_value result" where
  "sigma_T to_T s Xkey =
     (case Xs_reduced_samples s Xkey of
        None \<Rightarrow> Raises OutOfRange
      | Some v \<Rightarrow>
          (case sigma_T_loop to_T s Xkey v 0 of
             Returns sg \<Rightarrow>
               let divisor = (if N_bins s = 0 then 0 else to_T (real (N_bins s))) in
               if divisor = 0 then Returns Not_finite
               else Returns (Finite (to_T (sqrt
                      (to_T (to_T (real (N_bins s - 1)) / divisor) * sg))))
           | Raises e \<Rightarrow> Raises e
           | Undefined \<Rightarrow> Undefined))"

text \<open>
  \<open>jackknife(Xkey, mu_X, sigma_X)\<close>: the result is the returned flag with the values of the
  two reference parameters after the call. Both \<open>at\<close> calls follow a successful
  \<open>count\<close>, so no path throws. \<open>sigma_X\<close> is set to \<open>0\<close>, then
  \<open>sigma_X += pow(d - mu_X, (T) 2)\<close> adds in \<open>double\<close> and stores the sum in \<open>T\<close>.
  In the last assignment the quotient and its product with \<open>sigma_X\<close> are computed in
  \<open>T\<close>, and the square root is stored in \<open>T\<close>.
\<close>

definition jackknife ::
  "(real \<Rightarrow> real) \<Rightarrow> 'k analyzer \<Rightarrow> 'k \<Rightarrow> T_value \<Rightarrow> T_value \<Rightarrow>
     (bool \<times> T_value \<times> T_value) result" where
  "jackknife to_T s Xkey mu_X sigma_X =
     (case (Xs_reduced_samples s Xkey, Xs_mu s Xkey) of
        (Some v, Some m) \<Rightarrow>
          let sigma_X' = fold (\<lambda>d acc. to_T (acc + (to_T (d - m)) ^ 2)) v 0;
              divisor = (if N_bins s = 0 then 0 else to_T (real (N_bins s)))
          in if divisor = 0 then Returns (True, Finite m, Not_finite)
             else Returns (True, Finite m, Finite (to_T (sqrt
                    (to_T (to_T (to_T (real (N_bins s - 1)) / divisor) * sigma_X')))))
      | _ \<Rightarrow> Returns (False, mu_X, sigma_X))"

text \<open>\<open>keys()\<close> lists the keys of \<open>Xs_mu\<close>; as a set, it is the domain of that map.\<close>

definition keys :: "'k analyzer \<Rightarrow> 'k set" where
  "keys s = dom (Xs_mu s)"

section \<open>Sequences of calls\<close>

text \<open>
  A caller may catch an exception and go on using the object, so the state after a call is
  the state of \<open>Done\<close> or of \<open>Throws\<close>; after \<open>No_Behaviour\<close> there is none.
\<close>

datatype 'k call =
    Resample 'k "real list"
  | Add_resampled 'k "real list" real
  | Add_function 'k "real list \<Rightarrow> real" "'k list"
  | Add_function_variadic 'k nfun "'k list"
  | Remove 'k

fun exec :: "'k analyzer \<Rightarrow> 'k call \<Rightarrow> 'k outcome" where
  "exec s (Resample k xs) = resample s k xs"
| "exec s (Add_resampled k xs m) = add_resampled s k xs m"
| "exec s (Add_function k F ks) = add_function s k F ks"
| "exec s (Add_function_variadic k F ks) = add_function_variadic s k F ks"
| "exec s (Remove k) = Done (remove s k)"

fun state_after :: "'k outcome \<Rightarrow> 'k analyzer option" where
  "state_after (Done s) = Some s"
| "state_after (Throws e s) = Some s"
| "state_after No_Behaviour = None"

fun run :: "'k analyzer \<Rightarrow> 'k call list \<Rightarrow> 'k analyzer option" where
  "run s [] = Some s"
| "run s (c # cs) = (case state_after (exec s c) of None \<Rightarrow> None | Some s' \<Rightarrow> run s' cs)"

section \<open>Closed forms\<close>

text \<open>
  The object that \<open>resample\<close> leaves behind when it accepts a dataset, written without
  loops: the bin count, the arithmetic mean, and one replicate per bin.
\<close>

definition registered_raw :: "'k analyzer \<Rightarrow> 'k \<Rightarrow> real list \<Rightarrow> 'k analyzer" where
  "registered_raw s Xkey Xs =
     s\<lparr>N_bins := length Xs div bin_size s,
       Xs_mu := (Xs_mu s)(Xkey \<mapsto> sum_list Xs / real (length Xs)),
       Xs_reduced_samples := (Xs_reduced_samples s)(Xkey \<mapsto>
         map (\<lambda>j. (sum_list Xs - sum_list (take (bin_size s) (drop (j * bin_size s) Xs)))
                    / real (length Xs - bin_size s)) [0..<length Xs div bin_size s])\<rparr>"

text \<open>
  The replicate series that a fresh analyzer with bin size \<open>b\<close> stores for one raw
  dataset, if \<open>resample\<close> accepts it.
\<close>

definition replicates_of :: "nat \<Rightarrow> real list \<Rightarrow> real list option" where
  "replicates_of b Xs =
     (case resample (JackknifeAnalyzer b) () Xs of
        Done s \<Rightarrow> Xs_reduced_samples s ()
      | Throws e s \<Rightarrow> None
      | No_Behaviour \<Rightarrow> None)"

text \<open>
  The joint presence of means and replicates: both maps have the same keys and every
  stored series has \<open>N_bins\<close> entries. The last two parts say what \<open>N_bins\<close> can be: it
  is 0 only while nothing is stored, and it is never 1.
\<close>

definition consistent :: "'k analyzer \<Rightarrow> bool" where
  "consistent s \<longleftrightarrow>
     dom (Xs_mu s) = dom (Xs_reduced_samples s)
     \<and> (\<forall>k v. Xs_reduced_samples s k = Some v \<longrightarrow> length v = N_bins s)
     \<and> (N_bins s = 0 \<longrightarrow> dom (Xs_mu s) = {})
     \<and> N_bins s \<noteq> 1"

text \<open>Calls of \<open>add_function\<close> that name at least one argument key.\<close>

fun with_arguments :: "'k call \<Rightarrow> bool" where
  "with_arguments (Add_function k F ks) = (ks \<noteq> [])"
| "with_arguments (Add_function_variadic k G ks) = (ks \<noteq> [])"
| "with_arguments c = True"

section \<open>Properties of the loops and of the validation\<close>

lemma fold_add_sum_list: "fold (\<lambda>d acc. acc + d) xs (a::real) = a + sum_list xs"
  by (induction xs arbitrary: a) simp_all

lemma red_sample_loop_eq:
  "i \<le> n \<Longrightarrow> n \<le> length Xs \<Longrightarrow>
   red_sample_loop Xs i n red = Returns (red - sum_list (take (n - i) (drop i Xs)))"
proof (induction Xs i n red rule: red_sample_loop.induct)
  case (1 Xs i n red)
  show ?case
  proof (cases "i < n")
    case True
    then have il: "i < length Xs" using "1.prems" by simp
    have step: "red_sample_loop Xs i n red = red_sample_loop Xs (i + 1) n (red - Xs ! i)"
      using True il by (subst red_sample_loop.simps) simp
    have ih: "red_sample_loop Xs (i + 1) n (red - Xs ! i)
        = Returns (red - Xs ! i - sum_list (take (n - (i + 1)) (drop (i + 1) Xs)))"
      using "1.IH" [OF True il] True "1.prems" by simp
    have "take (n - i) (drop i Xs) = Xs ! i # take (n - (i + 1)) (drop (i + 1) Xs)"
      using True il by (simp add: Cons_nth_drop_Suc [symmetric] Suc_diff_Suc take_Suc_Cons [symmetric] del: take_Suc_Cons)
    then show ?thesis using step ih by simp
  next
    case False
    then show ?thesis using "1.prems" by (subst red_sample_loop.simps) simp
  qed
qed

lemma red_samples_loop_eq:
  "N_bins s * bin_size s \<le> length Xs \<Longrightarrow> bin_size s < length Xs \<Longrightarrow> b \<le> N_bins s \<Longrightarrow>
   red_samples_loop s Xs sm b acc =
     Returns (acc @ map (\<lambda>j. (sm - sum_list (take (bin_size s) (drop (j * bin_size s) Xs)))
                              / real (length Xs - bin_size s)) [b..<N_bins s])"
proof (induction s Xs sm b acc rule: red_samples_loop.induct)
  case (1 s Xs sm b acc)
  show ?case
  proof (cases "b < N_bins s")
    case True
    have "(b + 1) * bin_size s \<le> N_bins s * bin_size s"
      using True by (intro mult_le_mono1) simp
    then have bound: "(b + 1) * bin_size s \<le> length Xs" using "1.prems" by simp
    have inner: "red_sample_loop Xs (b * bin_size s) ((b + 1) * bin_size s) sm
        = Returns (sm - sum_list (take (bin_size s) (drop (b * bin_size s) Xs)))"
      using red_sample_loop_eq [of "b * bin_size s" "(b + 1) * bin_size s" Xs sm] bound by simp
    have nle: "\<not> length Xs \<le> bin_size s" using "1.prems" by simp
    have ih: "red_samples_loop s Xs sm (b + 1)
          (acc @ [(sm - sum_list (take (bin_size s) (drop (b * bin_size s) Xs))) / real (length Xs - bin_size s)])
        = Returns ((acc @ [(sm - sum_list (take (bin_size s) (drop (b * bin_size s) Xs))) / real (length Xs - bin_size s)])
            @ map (\<lambda>j. (sm - sum_list (take (bin_size s) (drop (j * bin_size s) Xs)))
                              / real (length Xs - bin_size s)) [b + 1..<N_bins s])"
      using "1.IH" [OF True inner nle] "1.prems" True by simp
    have "red_samples_loop s Xs sm b acc = red_samples_loop s Xs sm (b + 1)
          (acc @ [(sm - sum_list (take (bin_size s) (drop (b * bin_size s) Xs))) / real (length Xs - bin_size s)])"
      using True inner nle by (subst red_samples_loop.simps) simp
    then show ?thesis using ih True by (simp add: upt_conv_Cons)
  next
    case False
    then show ?thesis by (subst red_samples_loop.simps) simp
  qed
qed

lemma init_or_verify_N_raw:
  "0 < bin_size s \<Longrightarrow>
   init_or_verify_N s Xs False =
     (if N_bins s = 0 then
        (if 1 < length Xs div bin_size s then Done (s\<lparr>N_bins := length Xs div bin_size s\<rparr>)
         else Throws (RuntimeError less_than_2_bins) s)
      else if length Xs div bin_size s \<noteq> N_bins s
        then Throws (RuntimeError different_number_of_bins) s
      else Done s)"
  by (simp add: init_or_verify_N_def Let_def)

lemma init_or_verify_N_binned:
  "init_or_verify_N s Xs True =
     (if N_bins s = 0 then
        (if 1 < length Xs then Done (s\<lparr>N_bins := length Xs\<rparr>)
         else Throws (RuntimeError less_than_2_bins) s)
      else if length Xs \<noteq> N_bins s
        then Throws (RuntimeError different_number_of_bins) s
      else Done s)"
  by (simp add: init_or_verify_N_def Let_def)

lemma resample_zero_bin_size:
  "Xs_reduced_samples s Xkey = None \<Longrightarrow> Xs_mu s Xkey = None \<Longrightarrow> bin_size s = 0 \<Longrightarrow>
   resample s Xkey Xs = No_Behaviour"
  by (simp add: resample_def init_or_verify_N_def)

lemma resample_present:
  "Xs_reduced_samples s Xkey \<noteq> None \<or> Xs_mu s Xkey \<noteq> None \<Longrightarrow> resample s Xkey Xs = Done s"
  by (auto simp add: resample_def)

lemma red_sample_loop_no_raise: "red_sample_loop Xs i n red \<noteq> Raises e"
proof (induction Xs i n red rule: red_sample_loop.induct)
  case (1 Xs i n red)
  show ?case
    using "1.IH" by (subst red_sample_loop.simps) simp
qed

lemma red_samples_loop_no_raise: "red_samples_loop s Xs sm b acc \<noteq> Raises e"
proof (induction s Xs sm b acc rule: red_samples_loop.induct)
  case (1 s Xs sm b acc)
  show ?case
    using "1.IH"
    by (subst red_samples_loop.simps) (auto simp add: red_sample_loop_no_raise split: result.splits)
qed

lemma resample_accepts_gen:
  assumes absent: "Xs_reduced_samples s Xkey = None" "Xs_mu s Xkey = None"
    and b: "0 < bin_size s" and len: "bin_size s < length Xs"
    and N: "(N_bins s = 0 \<and> 1 < length Xs div bin_size s) \<or>
            (N_bins s \<noteq> 0 \<and> N_bins s = length Xs div bin_size s)"
  shows "resample s Xkey Xs = Done (registered_raw s Xkey Xs)"
proof -
  let ?n = "length Xs div bin_size s"
  let ?s1 = "s\<lparr>N_bins := ?n\<rparr>"
  let ?s2 = "?s1\<lparr>Xs_mu := (Xs_mu ?s1)(Xkey \<mapsto> sum_list Xs / real (length Xs))\<rparr>"
  have init: "init_or_verify_N s Xs False = Done ?s1"
  proof (cases "N_bins s = 0")
    case True
    then show ?thesis using b N by (simp add: init_or_verify_N_raw)
  next
    case False
    then have "N_bins s = ?n" using N by simp
    then have "?s1 = s" by simp
    then show ?thesis using b False N by (simp add: init_or_verify_N_raw)
  qed
  have sizes: "N_bins ?s2 * bin_size ?s2 \<le> length Xs" "bin_size ?s2 < length Xs"
    using len by simp_all
  have loop: "red_samples_loop ?s2 Xs (sum_list Xs) 0 [] =
      Returns (map (\<lambda>j. (sum_list Xs - sum_list (take (bin_size s) (drop (j * bin_size s) Xs)))
                    / real (length Xs - bin_size s)) [0..<?n])"
    using red_samples_loop_eq [OF sizes, of 0 "sum_list Xs" "[]"] by simp
  have ne: "length Xs \<noteq> 0" using sizes by auto
  show ?thesis
    using absent init loop ne
    by (simp add: resample_def fold_add_sum_list registered_raw_def Let_def)
qed

lemma resample_DoneD:
  assumes absent: "Xs_reduced_samples s Xkey = None" "Xs_mu s Xkey = None"
    and dn: "resample s Xkey Xs = Done s'"
  shows "s' = registered_raw s Xkey Xs \<and> 0 < bin_size s \<and> bin_size s < length Xs
         \<and> 0 < length Xs div bin_size s
         \<and> (N_bins s = 0 \<and> 1 < length Xs div bin_size s
              \<or> N_bins s \<noteq> 0 \<and> N_bins s = length Xs div bin_size s)"
proof -
  let ?n = "length Xs div bin_size s"
  have b: "0 < bin_size s"
    using absent dn by (cases "bin_size s = 0") (simp_all add: resample_def init_or_verify_N_def)
  have N: "(N_bins s = 0 \<and> 1 < ?n) \<or> (N_bins s \<noteq> 0 \<and> N_bins s = ?n)"
    using absent dn b
    by (auto simp add: resample_def init_or_verify_N_raw split: if_splits)
  then have n: "0 < ?n" by auto
  then have le: "bin_size s \<le> length Xs"
    using b by (metis div_less leI less_irrefl)
  have len: "bin_size s < length Xs"
  proof (rule ccontr)
    assume "\<not> bin_size s < length Xs"
    then have eq: "length Xs = bin_size s" using le by simp
    then have n1: "?n = 1" using b by simp
    then have N1: "N_bins s = 1" using N by simp
    have inner: "red_sample_loop Xs 0 (bin_size s) sm
        = Returns (sm - sum_list (take (bin_size s) Xs))" for sm
      using red_sample_loop_eq [of 0 "bin_size s" Xs sm] eq by simp
    have "red_samples_loop (s\<lparr>Xs_mu := m\<rparr>) Xs sm 0 [] = Undefined" for m sm
      using N1 inner eq by (subst red_samples_loop.simps) simp
    then show False
      using absent dn b N1 n1 eq
      by (simp add: resample_def init_or_verify_N_raw Let_def split: if_splits)
  qed
  show ?thesis
    using resample_accepts_gen [OF absent b len N] dn n b len N by simp
qed

lemma resample_ThrowsD: "resample s Xkey Xs = Throws e s' \<Longrightarrow> s' = s"
  by (auto simp add: resample_def init_or_verify_N_def Let_def red_samples_loop_no_raise
      split: if_splits outcome.splits result.splits)

lemma add_resampled_ThrowsD: "add_resampled s Xkey Xs m = Throws e s' \<Longrightarrow> s' = s"
  by (auto simp add: add_resampled_def init_or_verify_N_def Let_def
      split: if_splits outcome.splits)

lemma add_resampled_outcome:
  assumes absent: "Xs_reduced_samples s Xkey = None" "Xs_mu s Xkey = None"
  shows "add_resampled s Xkey Xs m =
     (if N_bins s = 0 then
        (if 1 < length Xs
         then Done (s\<lparr>N_bins := length Xs,
                       Xs_reduced_samples := (Xs_reduced_samples s)(Xkey \<mapsto> Xs),
                       Xs_mu := (Xs_mu s)(Xkey \<mapsto> m)\<rparr>)
         else Throws (RuntimeError less_than_2_bins) s)
      else if length Xs \<noteq> N_bins s
        then Throws (RuntimeError different_number_of_bins) s
      else Done (s\<lparr>Xs_reduced_samples := (Xs_reduced_samples s)(Xkey \<mapsto> Xs),
                    Xs_mu := (Xs_mu s)(Xkey \<mapsto> m)\<rparr>))"
  using absent by (simp add: add_resampled_def init_or_verify_N_binned Let_def)

section \<open>Registering raw data\<close>

lemma resample_5_by_2:
  "resample (JackknifeAnalyzer 2) k [1, 2, 3, 4, 5] =
     Done \<lparr>N_bins = 2, bin_size = 2, Xs_reduced_samples = [k \<mapsto> [4, 8 / 3]],
           Xs_mu = [k \<mapsto> 3]\<rparr>"
  by (simp add: resample_accepts_gen JackknifeAnalyzer_def registered_raw_def upt_rec)

text \<open>
  C1, as the code has it. When \<open>resample\<close> accepts a dataset \<open>Xs\<close> under a key that is not
  present, the analyzer holds \<open>N_bins = length Xs div bin_size\<close> replicates for the key,
  replicate \<open>i\<close> is the sum of all samples minus the sum of the block
  \<open>[i * bin_size, (i + 1) * bin_size)\<close>, divided by \<open>length Xs - bin_size\<close>, and the
  mean is the sum of all samples divided by their number. Every omitted block ends before
  the remainder \<open>length Xs mod bin_size\<close> of the series begins: the remainder samples are
  counted in the mean and stay in the numerator and in the divisor of every replicate; no
  replicate omits them. The divisors are not zero: \<open>0 < bin_size < length Xs\<close>.
\<close>

theorem resample_replicates_and_mean:
  assumes "Xs_reduced_samples s Xkey = None" and "Xs_mu s Xkey = None"
    and "resample s Xkey Xs = Done s'"
  shows "N_bins s' = length Xs div bin_size s
    \<and> (\<exists>reds. Xs_reduced_samples s' Xkey = Some reds \<and> length reds = N_bins s'
          \<and> (\<forall>i<N_bins s'. reds ! i =
                (sum_list Xs - sum_list (take (bin_size s) (drop (i * bin_size s) Xs)))
                  / real (length Xs - bin_size s)
                \<and> (i + 1) * bin_size s \<le> length Xs - length Xs mod bin_size s))
    \<and> Xs_mu s' Xkey = Some (sum_list Xs / real (length Xs))
    \<and> 0 < bin_size s \<and> bin_size s < length Xs"
proof -
  let ?n = "length Xs div bin_size s"
  from resample_DoneD [OF assms]
  have s': "s' = registered_raw s Xkey Xs" and b: "0 < bin_size s" "bin_size s < length Xs"
    by simp_all
  have blocks: "(i + 1) * bin_size s \<le> length Xs - length Xs mod bin_size s" if "i < ?n" for i
  proof -
    have "(i + 1) * bin_size s \<le> ?n * bin_size s"
      using that by (intro mult_le_mono1) simp
    also have "\<dots> = length Xs - length Xs mod bin_size s"
      by (simp add: minus_mod_eq_div_mult)
    finally show ?thesis .
  qed
  show ?thesis
    using b blocks by (simp add: s' registered_raw_def)
qed

theorem resample_replicates_and_mean_witness:
  "N_bins \<lparr>N_bins = 2, bin_size = 2, Xs_reduced_samples = [() \<mapsto> [4, 8 / 3]],
           Xs_mu = [() \<mapsto> 3]\<rparr> = length [1, 2, 3, 4, 5 :: real] div 2
   \<and> [4, 8 / 3] ! 1 = (sum_list [1, 2, 3, 4, 5] - sum_list (take 2 (drop (1 * 2) [1, 2, 3, 4, 5 :: real])))
                        / real (length [1, 2, 3, 4, 5 :: real] - 2)
   \<and> (3 :: real) = sum_list [1, 2, 3, 4, 5] / real (length [1, 2, 3, 4, 5 :: real])"
  using resample_replicates_and_mean [of "JackknifeAnalyzer 2" "()" "[1, 2, 3, 4, 5]",
      OF _ _ resample_5_by_2]
  by (simp add: JackknifeAnalyzer_def)

text \<open>
  C1 as stated says that the remainder samples are excluded from every replicate. With bin
  size 2, the series \<open>[1, 2, 3, 4, 5]\<close> and \<open>[1, 2, 3, 4, 6]\<close> have the same two bins and
  differ in the remainder sample only, and their replicates differ:
  \<open>(15 - 3) / 3\<close> and \<open>(15 - 7) / 3\<close> against \<open>(16 - 3) / 3\<close> and \<open>(16 - 7) / 3\<close>.
\<close>

theorem remainder_enters_replicates_counterexample:
  "take (2 * 2) [1, 2, 3, 4, 5 :: real] = take (2 * 2) [1, 2, 3, 4, 6]
   \<and> replicates_of 2 [1, 2, 3, 4, 5] = Some [4, 8 / 3]
   \<and> replicates_of 2 [1, 2, 3, 4, 6] = Some [13 / 3, 3]
   \<and> replicates_of 2 [1, 2, 3, 4, 5] \<noteq> replicates_of 2 [1, 2, 3, 4, 6]"
  by (simp add: replicates_of_def resample_accepts_gen JackknifeAnalyzer_def registered_raw_def upt_rec)

section \<open>Validation failures\<close>

text \<open>
  C4. For a key that is not present and a bin size that is not zero: with no bin count yet,
  \<open>resample\<close> sets \<open>N_bins\<close> to \<open>length Xs div bin_size\<close> when that is more than 1 and
  otherwise throws the runtime error for fewer than 2 bins; with a bin count set, it throws
  the runtime error for a different number of bins unless the quotient equals \<open>N_bins\<close>,
  and then it succeeds and keeps \<open>N_bins\<close>. \<open>add_resampled\<close> follows the same rules with
  \<open>length Xs\<close> in place of the quotient. Whenever either function throws, the analyzer
  is the one before the call.
\<close>

theorem bin_count_validation:
  assumes "Xs_reduced_samples s Xkey = None" and "Xs_mu s Xkey = None"
  shows
    "(0 < bin_size s \<and> N_bins s = 0 \<and> 1 < length Xs div bin_size s \<longrightarrow>
        (\<exists>s'. resample s Xkey Xs = Done s' \<and> N_bins s' = length Xs div bin_size s))
   \<and> (0 < bin_size s \<and> N_bins s = 0 \<and> \<not> 1 < length Xs div bin_size s \<longrightarrow>
        resample s Xkey Xs = Throws (RuntimeError less_than_2_bins) s)
   \<and> (0 < bin_size s \<and> N_bins s \<noteq> 0 \<and> length Xs div bin_size s \<noteq> N_bins s \<longrightarrow>
        resample s Xkey Xs = Throws (RuntimeError different_number_of_bins) s)
   \<and> (0 < bin_size s \<and> 1 < N_bins s \<and> length Xs div bin_size s = N_bins s \<longrightarrow>
        (\<exists>s'. resample s Xkey Xs = Done s' \<and> N_bins s' = N_bins s))
   \<and> (N_bins s = 0 \<and> 1 < length Xs \<longrightarrow>
        (\<exists>s'. add_resampled s Xkey Xs m = Done s' \<and> N_bins s' = length Xs))
   \<and> (N_bins s = 0 \<and> \<not> 1 < length Xs \<longrightarrow>
        add_resampled s Xkey Xs m = Throws (RuntimeError less_than_2_bins) s)
   \<and> (N_bins s \<noteq> 0 \<and> length Xs \<noteq> N_bins s \<longrightarrow>
        add_resampled s Xkey Xs m = Throws (RuntimeError different_number_of_bins) s)
   \<and> (N_bins s \<noteq> 0 \<and> length Xs = N_bins s \<longrightarrow>
        (\<exists>s'. add_resampled s Xkey Xs m = Done s' \<and> N_bins s' = N_bins s))
   \<and> (\<forall>e s'. resample s Xkey Xs = Throws e s' \<longrightarrow> s' = s)
   \<and> (\<forall>e s'. add_resampled s Xkey Xs m = Throws e s' \<longrightarrow> s' = s)"
proof -
  have raw: "resample s Xkey Xs =
     (if N_bins s = 0 then
        (if 1 < length Xs div bin_size s then Done (registered_raw s Xkey Xs)
         else Throws (RuntimeError less_than_2_bins) s)
      else if length Xs div bin_size s \<noteq> N_bins s
        then Throws (RuntimeError different_number_of_bins) s
      else Done (registered_raw s Xkey Xs))"
    if "0 < bin_size s" "N_bins s \<noteq> 1"
  proof -
    have len: "bin_size s < length Xs" if "1 < length Xs div bin_size s"
    proof -
      have "2 * bin_size s \<le> length Xs div bin_size s * bin_size s"
        using that by (intro mult_le_mono1) simp
      also have "\<dots> \<le> length Xs" by simp
      finally show ?thesis using \<open>0 < bin_size s\<close> by simp
    qed
    show ?thesis
      using assms that len resample_accepts_gen [OF assms, of Xs]
      by (auto simp add: resample_def init_or_verify_N_raw)
  qed
  have N: "N_bins (registered_raw s Xkey Xs) = length Xs div bin_size s"
    by (simp add: registered_raw_def)
  have c1: "0 < bin_size s \<and> N_bins s = 0 \<and> 1 < length Xs div bin_size s \<longrightarrow>
        (\<exists>s'. resample s Xkey Xs = Done s' \<and> N_bins s' = length Xs div bin_size s)"
    using raw N by simp
  have c2: "0 < bin_size s \<and> N_bins s = 0 \<and> \<not> 1 < length Xs div bin_size s \<longrightarrow>
        resample s Xkey Xs = Throws (RuntimeError less_than_2_bins) s"
    using raw by simp
  have c3: "0 < bin_size s \<and> N_bins s \<noteq> 0 \<and> length Xs div bin_size s \<noteq> N_bins s \<longrightarrow>
        resample s Xkey Xs = Throws (RuntimeError different_number_of_bins) s"
    using assms by (simp add: resample_def init_or_verify_N_raw)
  have c4: "0 < bin_size s \<and> 1 < N_bins s \<and> length Xs div bin_size s = N_bins s \<longrightarrow>
        (\<exists>s'. resample s Xkey Xs = Done s' \<and> N_bins s' = N_bins s)"
    using raw N by simp
  have c5: "N_bins s = 0 \<and> 1 < length Xs \<longrightarrow>
        (\<exists>s'. add_resampled s Xkey Xs m = Done s' \<and> N_bins s' = length Xs)"
    by (simp add: add_resampled_outcome [OF assms])
  have c6: "N_bins s = 0 \<and> \<not> 1 < length Xs \<longrightarrow>
        add_resampled s Xkey Xs m = Throws (RuntimeError less_than_2_bins) s"
    by (simp add: add_resampled_outcome [OF assms])
  have c7: "N_bins s \<noteq> 0 \<and> length Xs \<noteq> N_bins s \<longrightarrow>
        add_resampled s Xkey Xs m = Throws (RuntimeError different_number_of_bins) s"
    by (simp add: add_resampled_outcome [OF assms])
  have c8: "N_bins s \<noteq> 0 \<and> length Xs = N_bins s \<longrightarrow>
        (\<exists>s'. add_resampled s Xkey Xs m = Done s' \<and> N_bins s' = N_bins s)"
    by (simp add: add_resampled_outcome [OF assms])
  have c9: "\<forall>e s'. resample s Xkey Xs = Throws e s' \<longrightarrow> s' = s"
    by (auto dest: resample_ThrowsD)
  have c10: "\<forall>e s'. add_resampled s Xkey Xs m = Throws e s' \<longrightarrow> s' = s"
    by (auto dest: add_resampled_ThrowsD)
  show ?thesis
    using c1 c2 c3 c4 c5 c6 c7 c8 c9 c10 by blast
qed

theorem bin_count_validation_witness:
  "(\<exists>s'. resample (JackknifeAnalyzer 2) () [1, 2, 3, 4, 5] = Done s' \<and> N_bins s' = 2)
   \<and> resample (JackknifeAnalyzer 2) () [1, 2, 3]
       = Throws (RuntimeError less_than_2_bins) (JackknifeAnalyzer 2)
   \<and> resample \<lparr>N_bins = 3, bin_size = 2, Xs_reduced_samples = [0 \<mapsto> [1, 2, 3]],
                 Xs_mu = [0 \<mapsto> 2]\<rparr> (1::nat) [1, 2, 3, 4, 5]
       = Throws (RuntimeError different_number_of_bins)
           \<lparr>N_bins = 3, bin_size = 2, Xs_reduced_samples = [0 \<mapsto> [1, 2, 3]],
            Xs_mu = [0 \<mapsto> 2]\<rparr>
   \<and> add_resampled \<lparr>N_bins = 3, bin_size = 2, Xs_reduced_samples = [0 \<mapsto> [1, 2, 3]],
                 Xs_mu = [0 \<mapsto> 2]\<rparr> (1::nat) [1, 2] 0
       = Throws (RuntimeError different_number_of_bins)
           \<lparr>N_bins = 3, bin_size = 2, Xs_reduced_samples = [0 \<mapsto> [1, 2, 3]],
            Xs_mu = [0 \<mapsto> 2]\<rparr>
   \<and> add_resampled (JackknifeAnalyzer 2) () [1] 1
       = Throws (RuntimeError less_than_2_bins) (JackknifeAnalyzer 2)
   \<and> (\<exists>s'. add_resampled (JackknifeAnalyzer 2) () [1, 2] 0 = Done s' \<and> N_bins s' = 2)"
proof -
  let ?s0 = "JackknifeAnalyzer 2 :: unit analyzer"
  let ?s3 = "\<lparr>N_bins = 3, bin_size = 2, Xs_reduced_samples = [0 \<mapsto> [1, 2, 3]],
              Xs_mu = [0::nat \<mapsto> 2]\<rparr>"
  have a: "\<exists>s'. resample ?s0 () [1, 2, 3, 4, 5] = Done s' \<and> N_bins s' = 2"
    using bin_count_validation [of ?s0 "()" "[1, 2, 3, 4, 5]" 0]
    by (auto simp add: JackknifeAnalyzer_def)
  have b: "resample ?s0 () [1, 2, 3] = Throws (RuntimeError less_than_2_bins) ?s0"
    using bin_count_validation [of ?s0 "()" "[1, 2, 3]" 0]
    by (simp add: JackknifeAnalyzer_def)
  have c: "resample ?s3 1 [1, 2, 3, 4, 5] = Throws (RuntimeError different_number_of_bins) ?s3"
    using bin_count_validation [of ?s3 1 "[1, 2, 3, 4, 5]" 0] by simp
  have d: "add_resampled ?s3 1 [1, 2] 0 = Throws (RuntimeError different_number_of_bins) ?s3"
    using bin_count_validation [of ?s3 1 "[1, 2]" 0] by simp
  have e: "add_resampled ?s0 () [1] 1 = Throws (RuntimeError less_than_2_bins) ?s0"
    using bin_count_validation [of ?s0 "()" "[1]" 1]
    by (simp add: JackknifeAnalyzer_def)
  have f: "\<exists>s'. add_resampled ?s0 () [1, 2] 0 = Done s' \<and> N_bins s' = 2"
    using bin_count_validation [of ?s0 "()" "[1, 2]" 0]
    by (auto simp add: JackknifeAnalyzer_def)
  show ?thesis
    using a b c d e f by simp
qed

section \<open>Duplicate keys\<close>

text \<open>
  C5. When the key is already present (in either map, which is how the source tests it),
  \<open>resample\<close>, \<open>add_resampled\<close> and both overloads of \<open>add_function\<close> return normally
  and leave the whole analyzer as it was, whatever the samples, the function and the argument
  keys are: no validation and no lookup takes place.
\<close>

theorem duplicate_key_no_op:
  assumes "Xs_reduced_samples s Xkey \<noteq> None \<or> Xs_mu s Xkey \<noteq> None"
  shows "resample s Xkey Xs = Done s
    \<and> add_resampled s Xkey Xs m = Done s
    \<and> add_function s Xkey F F_arg_keys = Done s
    \<and> add_function_variadic s Xkey G F_arg_keys = Done s"
  using assms
  by (auto simp add: resample_def add_resampled_def add_function_def add_function_variadic_def)

theorem duplicate_key_no_op_witness:
  "resample \<lparr>N_bins = 3, bin_size = 2, Xs_reduced_samples = [0 \<mapsto> [1, 2, 3]],
             Xs_mu = [0::nat \<mapsto> 2]\<rparr> 0 [1, 2, 3, 4]
     = Done \<lparr>N_bins = 3, bin_size = 2, Xs_reduced_samples = [0 \<mapsto> [1, 2, 3]],
             Xs_mu = [0 \<mapsto> 2]\<rparr>
   \<and> add_resampled \<lparr>N_bins = 3, bin_size = 2, Xs_reduced_samples = [0 \<mapsto> [1, 2, 3]],
             Xs_mu = [0::nat \<mapsto> 2]\<rparr> 0 [1, 2, 3, 4] 9
     = Done \<lparr>N_bins = 3, bin_size = 2, Xs_reduced_samples = [0 \<mapsto> [1, 2, 3]],
             Xs_mu = [0 \<mapsto> 2]\<rparr>
   \<and> add_function \<lparr>N_bins = 3, bin_size = 2, Xs_reduced_samples = [0 \<mapsto> [1, 2, 3]],
             Xs_mu = [0::nat \<mapsto> 2]\<rparr> 0 sum_list [7, 8]
     = Done \<lparr>N_bins = 3, bin_size = 2, Xs_reduced_samples = [0 \<mapsto> [1, 2, 3]],
             Xs_mu = [0 \<mapsto> 2]\<rparr>
   \<and> add_function_variadic \<lparr>N_bins = 3, bin_size = 2, Xs_reduced_samples = [0 \<mapsto> [1, 2, 3]],
             Xs_mu = [0::nat \<mapsto> 2]\<rparr> 0 (Param (\<lambda>a. Value (a + 1))) [7]
     = Done \<lparr>N_bins = 3, bin_size = 2, Xs_reduced_samples = [0 \<mapsto> [1, 2, 3]],
             Xs_mu = [0 \<mapsto> 2]\<rparr>"
  using duplicate_key_no_op [of "\<lparr>N_bins = 3, bin_size = 2, Xs_reduced_samples = [0 \<mapsto> [1, 2, 3]],
             Xs_mu = [0::nat \<mapsto> 2]\<rparr>" 0 "[1, 2, 3, 4]" 9 sum_list "[7, 8]"]
    duplicate_key_no_op [of "\<lparr>N_bins = 3, bin_size = 2, Xs_reduced_samples = [0 \<mapsto> [1, 2, 3]],
             Xs_mu = [0::nat \<mapsto> 2]\<rparr>" 0 "[1, 2, 3, 4]" 9 sum_list "[7]" "Param (\<lambda>a. Value (a + 1))"]
  by simp

section \<open>The jackknife error\<close>

lemma sigma_loop_eq:
  "Xs_mu s Xkey = Some m \<Longrightarrow>
   sigma_loop s Xkey ds acc = Returns (acc + sum_list (map (\<lambda>d. (d - m) ^ 2) ds))"
  by (induction ds arbitrary: acc) simp_all

lemma fold_squares_eq:
  "fold (\<lambda>d acc. acc + (d - m) ^ 2) ds (acc::real) = acc + sum_list (map (\<lambda>d. (d - m) ^ 2) ds)"
  by (induction ds arbitrary: acc) simp_all

lemma sum_list_squares_nth:
  "sum_list (map (\<lambda>d. (d - m) ^ 2) ds) = (\<Sum>i<length ds. (ds ! i - (m::real)) ^ 2)"
  by (simp add: sum_list_sum_nth atLeast0LessThan)

lemma sigma_registered:
  "Xs_reduced_samples s Xkey = Some reds \<Longrightarrow> Xs_mu s Xkey = Some m \<Longrightarrow> N_bins s \<noteq> 0 \<Longrightarrow>
   sigma s Xkey = Returns (sqrt (((real (N_bins s) - 1) / real (N_bins s))
                     * (\<Sum>i<length reds. (reds ! i - m) ^ 2)))"
  by (simp add: sigma_def sigma_loop_eq sum_list_squares_nth of_nat_diff)

text \<open>
  C2. For a key with a stored replicate series and a stored mean, in an analyzer whose bin
  count is set, \<open>sigma\<close> returns the square root of \<open>(N_bins - 1) / N_bins\<close> times the sum
  of the squared differences between the stored replicates and the stored mean. For a key
  without a replicate series \<open>sigma\<close> throws \<open>std::out_of_range\<close>.
\<close>

theorem sigma_formula:
  "(Xs_reduced_samples s Xkey = Some reds \<and> Xs_mu s Xkey = Some m \<and> N_bins s \<noteq> 0 \<longrightarrow>
      sigma s Xkey = Returns (sqrt (((real (N_bins s) - 1) / real (N_bins s))
                        * (\<Sum>i<length reds. (reds ! i - m) ^ 2))))
   \<and> (Xs_reduced_samples s Xkey = None \<longrightarrow> sigma s Xkey = Raises OutOfRange)"
  by (simp add: sigma_registered) (simp add: sigma_def)

theorem sigma_formula_witness:
  "sigma \<lparr>N_bins = 2, bin_size = 1, Xs_reduced_samples = [0 \<mapsto> [3, 1]],
             Xs_mu = [0::nat \<mapsto> 2]\<rparr> 0 = Returns 1
   \<and> sigma \<lparr>N_bins = 2, bin_size = 1, Xs_reduced_samples = [0 \<mapsto> [3, 1]],
             Xs_mu = [0::nat \<mapsto> 2]\<rparr> 1 = Raises OutOfRange"
  using sigma_formula [of "\<lparr>N_bins = 2, bin_size = 1, Xs_reduced_samples = [0 \<mapsto> [3, 1]],
             Xs_mu = [0::nat \<mapsto> 2]\<rparr>" 0 "[3, 1]" 2]
    sigma_formula [of "\<lparr>N_bins = 2, bin_size = 1, Xs_reduced_samples = [0 \<mapsto> [3, 1]],
             Xs_mu = [0::nat \<mapsto> 2]\<rparr>" 1 "[]" 0]
  by (simp add: lessThan_Suc eval_nat_numeral)

section \<open>The combined query and the precision of \<open>T\<close>\<close>

lemma round_half_even_nearest:
  "\<bar>r - of_int k\<bar> < 1 / 2 \<Longrightarrow> round_half_even r = k"
proof -
  assume a: "\<bar>r - of_int k\<bar> < 1 / 2"
  show ?thesis
  proof (cases "of_int k \<le> r")
    case True
    then have "\<lfloor>r\<rfloor> = k" using a by (intro floor_unique) auto
    then show ?thesis using a True by (simp add: round_half_even_def)
  next
    case False
    then have f: "\<lfloor>r\<rfloor> = k - 1" using a by (intro floor_unique) auto
    then show ?thesis using a False by (simp add: round_half_even_def)
  qed
qed

lemma round_half_even_tie:
  "r = of_int k + 1 / 2 \<Longrightarrow> even k \<Longrightarrow> round_half_even r = k"
proof -
  assume r: "r = of_int k + 1 / 2" and e: "even k"
  have "\<lfloor>r\<rfloor> = k" using r by (intro floor_unique) auto
  then show ?thesis using r e by (simp add: round_half_even_def)
qed

lemma binary32_in_binade:
  assumes "0 < x" and "2 powr of_int e \<le> x" and "x < 2 powr (of_int e + 1)"
  shows "binary32 x =
    2 powr (of_int e - 23) * of_int (round_half_even (x / 2 powr (of_int e - 23)))"
proof -
  have "\<lfloor>log 2 x\<rfloor> = e"
    using assms by (simp add: floor_log_eq_powr_iff)
  then show ?thesis using assms(1) by (simp add: binary32_def Let_def)
qed

lemma binary32_nearest:
  assumes "0 < x" and "2 powr of_int e \<le> x" and "x < 2 powr (of_int e + 1)"
    and "\<bar>x / 2 powr (of_int e - 23) - of_int k\<bar> < 1 / 2"
  shows "binary32 x = 2 powr (of_int e - 23) * of_int k"
  using binary32_in_binade [OF assms(1-3)] round_half_even_nearest [OF assms(4)] by simp

lemma binary32_tie:
  assumes "0 < x" and "2 powr of_int e \<le> x" and "x < 2 powr (of_int e + 1)"
    and "x / 2 powr (of_int e - 23) = of_int k + 1 / 2" and "even k"
  shows "binary32 x = 2 powr (of_int e - 23) * of_int k"
  using binary32_in_binade [OF assms(1-3)] round_half_even_tie [OF assms(4,5)] by simp

lemma binary32_4095: "binary32 4095 = 4095"
  using binary32_nearest [of 4095 11 16773120] by (simp add: powr_neg_numeral)

lemma binary32_100: "binary32 100 = 100"
  using binary32_nearest [of 100 6 13107200] by (simp add: powr_neg_numeral)

lemma binary32_1: "binary32 1 = 1"
  using binary32_nearest [of 1 0 8388608] by (simp add: powr_neg_numeral)

lemma binary32_2: "binary32 2 = 2"
  using binary32_nearest [of 2 1 8388608] by (simp add: powr_neg_numeral)

lemma binary32_half: "binary32 (1 / 2) = 1 / 2"
  using binary32_nearest [of "1 / 2" "- 1" 8388608] by (simp add: powr_neg_numeral)

lemma binary32_16769025: "binary32 16769025 = 16769025"
  using binary32_nearest [of 16769025 23 16769025] by (simp add: powr_neg_numeral)

lemma binary32_16779025: "binary32 16779025 = 16779024"
  using binary32_tie [of 16779025 24 8389512] by simp

lemma binary32_8389512: "binary32 8389512 = 8389512"
  using binary32_nearest [of 8389512 23 8389512] by (simp add: powr_neg_numeral)

lemma binary32_sqrt_8389512: "binary32 (sqrt 8389512) = 11863922 / 4096"
proof -
  have lo: "(11863921 + 1 / 2) / 4096 < sqrt 8389512"
    by (rule real_less_rsqrt) (simp add: power2_eq_square)
  have hi: "sqrt 8389512 < (11863922 + 1 / 2) / 4096"
    by (rule real_less_lsqrt) (simp_all add: power2_eq_square)
  have b1: "2 powr of_int 11 \<le> sqrt 8389512"
    using lo by simp
  have b2: "sqrt 8389512 < 2 powr (of_int 11 + 1)"
    using hi by simp
  have pos: "0 < sqrt 8389512" by simp
  have "\<bar>sqrt 8389512 * 4096 - 11863922\<bar> < 1 / 2"
    using lo hi by argo
  then have near: "\<bar>sqrt 8389512 / 2 powr (of_int 11 - 23) - of_int 11863922\<bar> < 1 / 2"
    by (simp add: powr_neg_numeral)
  show ?thesis
    using binary32_nearest [OF pos b1 b2 near] by (simp add: powr_neg_numeral)
qed

lemma binary32_sqrt_16779025_half: "binary32 (sqrt (16779025 / 2)) = 11863923 / 4096"
proof -
  have lo: "(11863922 + 1 / 2) / 4096 < sqrt (16779025 / 2)"
    by (rule real_less_rsqrt) (simp add: power2_eq_square)
  have hi: "sqrt (16779025 / 2) < (11863923 + 1 / 2) / 4096"
    by (rule real_less_lsqrt) (simp_all add: power2_eq_square)
  have b1: "2 powr of_int 11 \<le> sqrt (16779025 / 2)"
    using lo by simp
  have b2: "sqrt (16779025 / 2) < 2 powr (of_int 11 + 1)"
    using hi by simp
  have pos: "0 < sqrt (16779025 / 2)" by simp
  have "\<bar>sqrt (16779025 / 2) * 4096 - 11863923\<bar> < 1 / 2"
    using lo hi by argo
  then have near: "\<bar>sqrt (16779025 / 2) / 2 powr (of_int 11 - 23) - of_int 11863923\<bar> < 1 / 2"
    by (simp add: powr_neg_numeral)
  show ?thesis
    using binary32_nearest [OF pos b1 b2 near] by (simp add: powr_neg_numeral)
qed

lemma jackknife_float_example:
  "jackknife binary32 \<lparr>N_bins = 2, bin_size = 1, Xs_reduced_samples = [() \<mapsto> [4095, 100]],
       Xs_mu = [() \<mapsto> 0]\<rparr> () (Finite 0) (Finite 0)
   = Returns (True, Finite 0, Finite (11863922 / 4096))"
  by (simp add: jackknife_def binary32_4095 binary32_100 binary32_1 binary32_2
      binary32_half binary32_16769025 binary32_16779025 binary32_8389512 binary32_sqrt_8389512)

lemma sigma_float_example:
  "sigma_T binary32 \<lparr>N_bins = 2, bin_size = 1, Xs_reduced_samples = [() \<mapsto> [4095, 100]],
       Xs_mu = [() \<mapsto> 0]\<rparr> ()
   = Returns (Finite (11863923 / 4096))"
  by (simp add: sigma_T_def binary32_4095 binary32_100 binary32_1 binary32_2
      binary32_half binary32_sqrt_16779025_half)

lemma sigma_T_loop_eq:
  "Xs_mu s Xkey = Some m \<Longrightarrow>
   sigma_T_loop to_T s Xkey ds acc = Returns (acc + sum_list (map (\<lambda>d. (to_T (d - m)) ^ 2) ds))"
  by (induction ds arbitrary: acc) simp_all

lemma jackknife_registered:
  "Xs_reduced_samples s Xkey = Some reds \<Longrightarrow> Xs_mu s Xkey = Some m \<Longrightarrow>
   \<exists>sg. jackknife to_T s Xkey mu_X sigma_X = Returns (True, Finite m, sg)"
  by (simp add: jackknife_def Let_def)

lemma jackknife_double:
  "Xs_reduced_samples s Xkey = Some reds \<Longrightarrow> Xs_mu s Xkey = Some m \<Longrightarrow> N_bins s \<noteq> 0 \<Longrightarrow>
   jackknife (\<lambda>x. x) s Xkey mu_X sigma_X =
     Returns (True, Finite m,
       Finite (sqrt (((real (N_bins s) - 1) / real (N_bins s))
                 * (\<Sum>i<length reds. (reds ! i - m) ^ 2))))"
  by (simp add: jackknife_def fold_squares_eq sum_list_squares_nth of_nat_diff Let_def)

lemma jackknife_double_is_sigma_T:
  "Xs_reduced_samples s Xkey = Some reds \<Longrightarrow> Xs_mu s Xkey = Some m \<Longrightarrow>
   \<exists>sg. jackknife (\<lambda>x. x) s Xkey mu_X sigma_X = Returns (True, Finite m, sg)
       \<and> sigma_T (\<lambda>x. x) s Xkey = Returns sg"
  by (simp add: jackknife_def sigma_T_def sigma_T_loop_eq fold_squares_eq Let_def)

text \<open>
  What holds of \<open>jackknife\<close>: it always returns, for every type \<open>T\<close>. For a
  registered key it returns \<open>true\<close> and assigns the stored mean to \<open>mu_X\<close>, also when
  no bin count is set; for \<open>T = double\<close> it assigns to \<open>sigma_X\<close> the value that
  \<open>sigma\<close> returns for the key, which for a bin count that is set is the square root of
  \<open>(N_bins - 1) / N_bins\<close> times the sum of the squared differences between the stored
  replicates and the stored mean. For a key missing from either map it returns \<open>false\<close>,
  and \<open>mu_X\<close> and \<open>sigma_X\<close> keep their values. The function is \<open>const\<close>: it has
  no analyzer to return.
\<close>

theorem jackknife_never_fails:
  "(Xs_reduced_samples s Xkey = Some reds \<and> Xs_mu s Xkey = Some m \<longrightarrow>
      (\<exists>sg. jackknife to_T s Xkey mu_X sigma_X = Returns (True, Finite m, sg))
      \<and> mu s Xkey = Returns m
      \<and> (\<exists>sg. jackknife (\<lambda>x. x) s Xkey mu_X sigma_X = Returns (True, Finite m, sg)
              \<and> sigma_T (\<lambda>x. x) s Xkey = Returns sg)
      \<and> (N_bins s \<noteq> 0 \<longrightarrow>
            jackknife (\<lambda>x. x) s Xkey mu_X sigma_X =
              Returns (True, Finite m,
                Finite (sqrt (((real (N_bins s) - 1) / real (N_bins s))
                          * (\<Sum>i<length reds. (reds ! i - m) ^ 2))))
          \<and> sigma s Xkey =
              Returns (sqrt (((real (N_bins s) - 1) / real (N_bins s))
                          * (\<Sum>i<length reds. (reds ! i - m) ^ 2)))))
   \<and> (Xs_reduced_samples s Xkey = None \<or> Xs_mu s Xkey = None \<longrightarrow>
        jackknife to_T s Xkey mu_X sigma_X = Returns (False, mu_X, sigma_X))"
proof -
  have registered:
    "(\<exists>sg. jackknife to_T s Xkey mu_X sigma_X = Returns (True, Finite m, sg))
      \<and> mu s Xkey = Returns m
      \<and> (\<exists>sg. jackknife (\<lambda>x. x) s Xkey mu_X sigma_X = Returns (True, Finite m, sg)
              \<and> sigma_T (\<lambda>x. x) s Xkey = Returns sg)
      \<and> (N_bins s \<noteq> 0 \<longrightarrow>
            jackknife (\<lambda>x. x) s Xkey mu_X sigma_X =
              Returns (True, Finite m,
                Finite (sqrt (((real (N_bins s) - 1) / real (N_bins s))
                          * (\<Sum>i<length reds. (reds ! i - m) ^ 2))))
          \<and> sigma s Xkey =
              Returns (sqrt (((real (N_bins s) - 1) / real (N_bins s))
                          * (\<Sum>i<length reds. (reds ! i - m) ^ 2))))"
    if r: "Xs_reduced_samples s Xkey = Some reds" and m: "Xs_mu s Xkey = Some m"
  proof -
    have a: "\<exists>sg. jackknife to_T s Xkey mu_X sigma_X = Returns (True, Finite m, sg)"
      by (rule jackknife_registered [OF r m])
    have b: "mu s Xkey = Returns m"
      using m by (simp add: mu_def)
    have c: "jackknife (\<lambda>x. x) s Xkey mu_X sigma_X =
              Returns (True, Finite m,
                Finite (sqrt (((real (N_bins s) - 1) / real (N_bins s))
                          * (\<Sum>i<length reds. (reds ! i - m) ^ 2))))"
      if "N_bins s \<noteq> 0"
      using jackknife_double [OF r m that] .
    have d: "sigma s Xkey =
              Returns (sqrt (((real (N_bins s) - 1) / real (N_bins s))
                          * (\<Sum>i<length reds. (reds ! i - m) ^ 2)))"
      if "N_bins s \<noteq> 0"
      using sigma_registered [OF r m that] .
    show ?thesis
      using a b c d jackknife_double_is_sigma_T [OF r m] by blast
  qed
  have absent: "jackknife to_T s Xkey mu_X sigma_X = Returns (False, mu_X, sigma_X)"
    if "Xs_reduced_samples s Xkey = None \<or> Xs_mu s Xkey = None"
    using that by (auto simp add: jackknife_def split: option.splits)
  show ?thesis
    using registered absent by blast
qed

theorem jackknife_never_fails_example:
  "jackknife (\<lambda>x. x) \<lparr>N_bins = 2, bin_size = 1, Xs_reduced_samples = [0 \<mapsto> [3, 1]],
             Xs_mu = [0::nat \<mapsto> 2]\<rparr> 0 (Finite 7) (Finite 8) = Returns (True, Finite 2, Finite 1)
   \<and> sigma \<lparr>N_bins = 2, bin_size = 1, Xs_reduced_samples = [0 \<mapsto> [3, 1]],
             Xs_mu = [0::nat \<mapsto> 2]\<rparr> 0 = Returns 1
   \<and> jackknife binary32 \<lparr>N_bins = 2, bin_size = 1, Xs_reduced_samples = [0 \<mapsto> [3, 1]],
             Xs_mu = [0::nat \<mapsto> 2]\<rparr> 1 (Finite 7) Not_finite = Returns (False, Finite 7, Not_finite)
   \<and> (\<exists>sg. jackknife binary32 \<lparr>N_bins = 0, bin_size = 1, Xs_reduced_samples = [0 \<mapsto> []],
             Xs_mu = [0::nat \<mapsto> 7]\<rparr> 0 (Finite 1) (Finite 1) = Returns (True, Finite 7, sg))"
proof -
  let ?st = "\<lparr>N_bins = 2, bin_size = 1, Xs_reduced_samples = [0 \<mapsto> [3, 1]],
             Xs_mu = [0::nat \<mapsto> 2]\<rparr>"
  let ?empty = "\<lparr>N_bins = 0, bin_size = 1, Xs_reduced_samples = [0 \<mapsto> []],
             Xs_mu = [0::nat \<mapsto> 7]\<rparr>"
  have reg: "Xs_reduced_samples ?st 0 = Some [3, 1] \<and> Xs_mu ?st 0 = Some 2" by simp
  have N: "N_bins ?st \<noteq> 0" by simp
  have val: "sqrt (((real (N_bins ?st) - 1) / real (N_bins ?st))
                * (\<Sum>i<length [3, 1 :: real]. ([3, 1] ! i - 2) ^ 2)) = 1"
    by (simp add: lessThan_Suc eval_nat_numeral)
  have a: "jackknife (\<lambda>x. x) ?st 0 (Finite 7) (Finite 8) = Returns (True, Finite 2, Finite 1)
      \<and> sigma ?st 0 = Returns 1"
    using jackknife_never_fails [of ?st 0 "[3, 1]" 2 "\<lambda>x. x" "Finite 7" "Finite 8"] reg N val
    by metis
  have "Xs_reduced_samples ?st 1 = None \<or> Xs_mu ?st 1 = None" by simp
  then have b: "jackknife binary32 ?st 1 (Finite 7) Not_finite = Returns (False, Finite 7, Not_finite)"
    using jackknife_never_fails [of ?st 1 "[]" 0 binary32 "Finite 7" Not_finite] by blast
  have "Xs_reduced_samples ?empty 0 = Some [] \<and> Xs_mu ?empty 0 = Some 7" by simp
  then have c: "\<exists>sg. jackknife binary32 ?empty 0 (Finite 1) (Finite 1) = Returns (True, Finite 7, sg)"
    using jackknife_never_fails [of ?empty 0 "[]" 7 binary32 "Finite 1" "Finite 1"] by blast
  show ?thesis using a b c by blast
qed

text \<open>
  C8 on the code, for \<open>T = float\<close>. \<open>add_resampled\<close> stores the replicates 4095 and
  100 with mean 0 in a fresh analyzer. \<open>jackknife\<close> adds the squares 16769025 and 10000 in
  its \<open>float\<close> parameter, where the sum 16779025 is rounded to 16779024, and assigns the
  \<open>float\<close> nearest to the square root of 8389512, which is
  \<open>11863922 / 4096 = 2896.46533203125\<close>. \<open>sigma\<close> adds the squares in a \<open>double\<close>
  and returns the \<open>float\<close> nearest to the square root of 8389512.5, which is
  \<open>11863923 / 4096 = 2896.465576171875\<close>. Both squares are exact in \<open>float\<close> and in
  \<open>double\<close>, so the two results do not depend on which overloads of \<open>pow\<close> and
  \<open>sqrt\<close> are called.
\<close>

theorem jackknife_float_differs_from_sigma:
  "add_resampled (JackknifeAnalyzer 1) () [4095, 100] 0
     = Done \<lparr>N_bins = 2, bin_size = 1, Xs_reduced_samples = [() \<mapsto> [4095, 100]],
             Xs_mu = [() \<mapsto> 0]\<rparr>
   \<and> jackknife binary32 \<lparr>N_bins = 2, bin_size = 1, Xs_reduced_samples = [() \<mapsto> [4095, 100]],
         Xs_mu = [() \<mapsto> 0]\<rparr> () (Finite 0) (Finite 0)
     = Returns (True, Finite 0, Finite (11863922 / 4096))
   \<and> sigma_T binary32 \<lparr>N_bins = 2, bin_size = 1, Xs_reduced_samples = [() \<mapsto> [4095, 100]],
         Xs_mu = [() \<mapsto> 0]\<rparr> ()
     = Returns (Finite (11863923 / 4096))
   \<and> Finite (11863922 / 4096) \<noteq> Finite (11863923 / 4096)"
  using jackknife_float_example sigma_float_example
  by (simp add: add_resampled_outcome JackknifeAnalyzer_def)

section \<open>Removing a key\<close>

lemma sigma_loop_cong:
  "Xs_mu s' k = Xs_mu s k \<Longrightarrow> sigma_loop s' k ds acc = sigma_loop s k ds acc"
  by (induction ds arbitrary: acc) (simp_all split: option.splits)

lemma remove_other:
  "k' \<noteq> k \<Longrightarrow> Xs_mu (remove s k) k' = Xs_mu s k'"
  "k' \<noteq> k \<Longrightarrow> Xs_reduced_samples (remove s k) k' = Xs_reduced_samples s k'"
  "N_bins (remove s k) = N_bins s" "bin_size (remove s k) = bin_size s"
  by (simp_all add: remove_def)

lemma remove_same:
  "Xs_mu (remove s k) k = None" "Xs_reduced_samples (remove s k) k = None"
  by (simp_all add: remove_def)

lemma remove_absent:
  "Xs_mu s k = None \<Longrightarrow> Xs_reduced_samples s k = None \<Longrightarrow> remove s k = s"
  by (simp add: remove_def fun_upd_idem)

lemma add_function_example:
  "add_function \<lparr>N_bins = 2, bin_size = 1, Xs_reduced_samples = [0 \<mapsto> [3, 1]],
             Xs_mu = [0::nat \<mapsto> 2]\<rparr> 1 (\<lambda>as. 2 * sum_list as) [0]
   = Done \<lparr>N_bins = 2, bin_size = 1, Xs_reduced_samples = [0 \<mapsto> [3, 1], 1 \<mapsto> [6, 2]],
             Xs_mu = [0 \<mapsto> 2, 1 \<mapsto> 4]\<rparr>"
  by (simp add: add_function_def F_jackknife_samples_loop.simps)

text \<open>
  C7. \<open>remove\<close> erases the key from both maps, so that \<open>mu\<close>, \<open>sigma\<close> and
  \<open>samples\<close> throw for it afterwards. Every other key keeps its mean and its replicates,
  and \<open>mu\<close>, \<open>sigma\<close> and \<open>samples\<close> return for it what they returned before; this
  holds in particular for a key that \<open>add_function\<close> derived from the removed one. The bin
  count and the bin size stay, and removing an absent key changes nothing.
\<close>

theorem remove_frame:
  "Xs_mu (remove s Xkey) Xkey = None \<and> Xs_reduced_samples (remove s Xkey) Xkey = None
   \<and> mu (remove s Xkey) Xkey = Raises OutOfRange
   \<and> sigma (remove s Xkey) Xkey = Raises OutOfRange
   \<and> samples (remove s Xkey) Xkey = Raises OutOfRange
   \<and> (\<forall>k. k \<noteq> Xkey \<longrightarrow>
         Xs_mu (remove s Xkey) k = Xs_mu s k
       \<and> Xs_reduced_samples (remove s Xkey) k = Xs_reduced_samples s k
       \<and> mu (remove s Xkey) k = mu s k
       \<and> sigma (remove s Xkey) k = sigma s k
       \<and> samples (remove s Xkey) k = samples s k)
   \<and> N_bins (remove s Xkey) = N_bins s \<and> bin_size (remove s Xkey) = bin_size s
   \<and> (Xs_mu s Xkey = None \<and> Xs_reduced_samples s Xkey = None \<longrightarrow> remove s Xkey = s)
   \<and> (\<forall>s0 Fkey F F_arg_keys.
         add_function s0 Fkey F F_arg_keys = Done s \<and> Xkey \<in> set F_arg_keys \<and> Fkey \<noteq> Xkey \<longrightarrow>
           mu (remove s Xkey) Fkey = mu s Fkey \<and> samples (remove s Xkey) Fkey = samples s Fkey)"
proof -
  have other: "mu (remove s Xkey) k = mu s k \<and> sigma (remove s Xkey) k = sigma s k
      \<and> samples (remove s Xkey) k = samples s k" if "k \<noteq> Xkey" for k
    using that sigma_loop_cong [of "remove s Xkey" k s]
    by (simp add: mu_def sigma_def samples_def remove_other split: option.splits result.splits)
  have same: "mu (remove s Xkey) Xkey = Raises OutOfRange
      \<and> sigma (remove s Xkey) Xkey = Raises OutOfRange
      \<and> samples (remove s Xkey) Xkey = Raises OutOfRange"
    by (simp add: mu_def sigma_def samples_def remove_same)
  show ?thesis
    using other same by (simp add: remove_other remove_same remove_absent)
qed

theorem remove_frame_witness:
  "mu (remove \<lparr>N_bins = 2, bin_size = 1, Xs_reduced_samples = [0 \<mapsto> [3, 1], 1 \<mapsto> [6, 2]],
             Xs_mu = [0::nat \<mapsto> 2, 1 \<mapsto> 4]\<rparr> 0) 0 = Raises OutOfRange
   \<and> mu (remove \<lparr>N_bins = 2, bin_size = 1, Xs_reduced_samples = [0 \<mapsto> [3, 1], 1 \<mapsto> [6, 2]],
             Xs_mu = [0::nat \<mapsto> 2, 1 \<mapsto> 4]\<rparr> 0) 1 = Returns 4
   \<and> samples (remove \<lparr>N_bins = 2, bin_size = 1, Xs_reduced_samples = [0 \<mapsto> [3, 1], 1 \<mapsto> [6, 2]],
             Xs_mu = [0::nat \<mapsto> 2, 1 \<mapsto> 4]\<rparr> 0) 1 = Returns [6, 2]
   \<and> remove \<lparr>N_bins = 2, bin_size = 1, Xs_reduced_samples = [0 \<mapsto> [3, 1], 1 \<mapsto> [6, 2]],
             Xs_mu = [0::nat \<mapsto> 2, 1 \<mapsto> 4]\<rparr> 5
       = \<lparr>N_bins = 2, bin_size = 1, Xs_reduced_samples = [0 \<mapsto> [3, 1], 1 \<mapsto> [6, 2]],
             Xs_mu = [0::nat \<mapsto> 2, 1 \<mapsto> 4]\<rparr>"
proof -
  let ?init = "\<lparr>N_bins = 2, bin_size = 1, Xs_reduced_samples = [0 \<mapsto> [3, 1]],
             Xs_mu = [0::nat \<mapsto> 2]\<rparr>"
  let ?st = "\<lparr>N_bins = 2, bin_size = 1, Xs_reduced_samples = [0 \<mapsto> [3, 1], 1 \<mapsto> [6, 2]],
             Xs_mu = [0::nat \<mapsto> 2, 1 \<mapsto> 4]\<rparr>"
  have derived: "add_function ?init 1 (\<lambda>as. 2 * sum_list as) [0] = Done ?st \<and> 0 \<in> set [0::nat] \<and> (1::nat) \<noteq> 0"
    using add_function_example by simp
  have a: "mu (remove ?st 0) 0 = Raises OutOfRange"
    using remove_frame [of ?st 0] by blast
  have "mu (remove ?st 0) 1 = mu ?st 1 \<and> samples (remove ?st 0) 1 = samples ?st 1"
    using remove_frame [of ?st 0] derived by blast
  then have b: "mu (remove ?st 0) 1 = Returns 4 \<and> samples (remove ?st 0) 1 = Returns [6, 2]"
    by (simp add: mu_def samples_def)
  have "Xs_mu ?st 5 = None \<and> Xs_reduced_samples ?st 5 = None" by simp
  then have c: "remove ?st 5 = ?st"
    using remove_frame [of ?st 5] by blast
  show ?thesis using a b c by simp
qed

section \<open>Functions of registered datasets: the loops\<close>

lemma args_mu_loop_pack:
  "args_mu_loop s ks acc =
     (case mu_at_pack s ks of
        Returns ms \<Rightarrow> Returns (acc @ ms) | Raises e \<Rightarrow> Raises e | Undefined \<Rightarrow> Undefined)"
  by (induction ks arbitrary: acc) (simp_all split: option.splits result.splits)

lemma args_red_samples_loop_pack:
  "args_red_samples_loop s i ks acc =
     (case reduced_samples_at_pack s i ks of
        Returns ds \<Rightarrow> Returns (acc @ ds) | Raises e \<Rightarrow> Raises e | Undefined \<Rightarrow> Undefined)"
  by (induction ks arbitrary: acc) (simp_all split: option.splits result.splits)

lemma mu_at_pack_ReturnsD:
  "mu_at_pack s ks = Returns ms \<Longrightarrow> list_all2 (\<lambda>k m. Xs_mu s k = Some m) ks ms"
  by (induction ks arbitrary: ms) (auto split: option.splits result.splits)

lemma mu_at_pack_cases:
  "mu_at_pack s ks =
     (if \<forall>k\<in>set ks. Xs_mu s k \<noteq> None then Returns (map (\<lambda>k. the (Xs_mu s k)) ks)
      else Raises OutOfRange)"
  by (induction ks) (auto split: option.splits result.splits)

lemma reduced_samples_at_pack_ReturnsD:
  "reduced_samples_at_pack s i ks = Returns ds \<Longrightarrow>
     list_all2 (\<lambda>k d. \<exists>v. Xs_reduced_samples s k = Some v \<and> i < length v \<and> d = v ! i) ks ds"
  by (induction ks arbitrary: ds) (auto split: option.splits result.splits if_splits)

lemma reduced_samples_at_pack_cases:
  "reduced_samples_at_pack s i ks =
     (if \<forall>k\<in>set ks. \<exists>v. Xs_reduced_samples s k = Some v \<and> i < length v
      then Returns (map (\<lambda>k. the (Xs_reduced_samples s k) ! i) ks)
      else Raises OutOfRange)"
  by (induction ks) (auto split: option.splits result.splits)

lemma reduced_samples_at_pack_cong:
  "Xs_reduced_samples s' = Xs_reduced_samples s \<Longrightarrow>
   reduced_samples_at_pack s' i ks = reduced_samples_at_pack s i ks"
  by (induction ks) (simp_all split: option.splits result.splits)

lemma F_jackknife_samples_loop_ReturnsD:
  "F_jackknife_samples_loop s F ks i acc = Returns rs \<Longrightarrow> i \<le> N_bins s \<Longrightarrow>
   length rs = length acc + (N_bins s - i) \<and> take (length acc) rs = acc
   \<and> (\<forall>j. i \<le> j \<and> j < N_bins s \<longrightarrow>
         (\<exists>ds. reduced_samples_at_pack s j ks = Returns ds \<and> rs ! (length acc + (j - i)) = F ds))"
proof (induction s F ks i acc arbitrary: rs rule: F_jackknife_samples_loop.induct)
  case (1 s F ks i acc)
  show ?case
  proof (cases "i < N_bins s")
    case True
    from "1.prems"(1) True obtain ds where
      ds: "reduced_samples_at_pack s i ks = Returns ds"
      and rec: "F_jackknife_samples_loop s F ks (i + 1) (acc @ [F ds]) = Returns rs"
      by (subst (asm) F_jackknife_samples_loop.simps)
        (auto simp add: args_red_samples_loop_pack split: result.splits)
    have args: "args_red_samples_loop s i ks [] = Returns ds"
      using ds by (simp add: args_red_samples_loop_pack)
    from "1.IH" [OF True args rec] True
    have len: "length rs = length (acc @ [F ds]) + (N_bins s - (i + 1))"
      and tk: "take (length (acc @ [F ds])) rs = acc @ [F ds]"
      and rest: "\<forall>j. i + 1 \<le> j \<and> j < N_bins s \<longrightarrow>
         (\<exists>ds'. reduced_samples_at_pack s j ks = Returns ds'
            \<and> rs ! (length (acc @ [F ds]) + (j - (i + 1))) = F ds')"
      by simp_all
    have l1: "length rs = length acc + (N_bins s - i)" using len True by simp
    have t1: "take (length acc) rs = acc"
    proof -
      have "take (length acc) (take (length (acc @ [F ds])) rs) = take (length acc) (acc @ [F ds])"
        using tk by simp
      then show ?thesis by (simp add: min_def)
    qed
    have at_i: "rs ! length acc = F ds"
    proof -
      have "length acc < length rs" using l1 True by simp
      then have "rs ! length acc = take (length (acc @ [F ds])) rs ! length acc" by simp
      also have "\<dots> = F ds" by (simp only: tk) simp
      finally show ?thesis .
    qed
    have all: "\<exists>ds'. reduced_samples_at_pack s j ks = Returns ds'
        \<and> rs ! (length acc + (j - i)) = F ds'" if "i \<le> j" "j < N_bins s" for j
    proof (cases "j = i")
      case True
      then show ?thesis using ds at_i by simp
    next
      case False
      then have "i + 1 \<le> j" using that by simp
      with rest that obtain ds' where p: "reduced_samples_at_pack s j ks = Returns ds'"
        and q: "rs ! (length (acc @ [F ds]) + (j - (i + 1))) = F ds'" by blast
      have eq: "length (acc @ [F ds]) + (j - (i + 1)) = length acc + (j - i)"
        using \<open>i + 1 \<le> j\<close> by simp
      from q have "rs ! (length acc + (j - i)) = F ds'" by (simp only: eq)
      with p show ?thesis by blast
    qed
    show ?thesis using l1 t1 all by blast
  next
    case False
    then have "rs = acc"
      using "1.prems"(1) by (subst (asm) F_jackknife_samples_loop.simps) simp
    then show ?thesis using False "1.prems"(2) by auto
  qed
qed

lemma F_jackknife_samples_loop_succeeds:
  "\<forall>j. i \<le> j \<and> j < N_bins s \<longrightarrow> (\<exists>ds. reduced_samples_at_pack s j ks = Returns ds) \<Longrightarrow>
   \<exists>rs. F_jackknife_samples_loop s F ks i acc = Returns rs"
proof (induction s F ks i acc rule: F_jackknife_samples_loop.induct)
  case (1 s F ks i acc)
  show ?case
  proof (cases "i < N_bins s")
    case True
    with "1.prems" obtain ds where ds: "reduced_samples_at_pack s i ks = Returns ds"
      by auto
    have args: "args_red_samples_loop s i ks [] = Returns ds"
      using ds by (simp add: args_red_samples_loop_pack)
    have "\<exists>rs. F_jackknife_samples_loop s F ks (i + 1) (acc @ [F ds]) = Returns rs"
      using "1.IH" [OF True args] "1.prems" by simp
    then show ?thesis
      using True args by (subst F_jackknife_samples_loop.simps) simp
  next
    case False
    then show ?thesis by (subst F_jackknife_samples_loop.simps) simp
  qed
qed

lemma F_jackknife_samples_loop_no_undefined:
  "F_jackknife_samples_loop s F ks i acc \<noteq> Undefined"
proof (induction s F ks i acc rule: F_jackknife_samples_loop.induct)
  case (1 s F ks i acc)
  show ?case
    using "1.IH"
    by (subst F_jackknife_samples_loop.simps)
      (auto simp add: args_red_samples_loop_pack reduced_samples_at_pack_cases
        split: result.splits if_splits)
qed

lemma add_function_DoneD:
  assumes absent: "Xs_reduced_samples s Fkey = None" "Xs_mu s Fkey = None"
    and dn: "add_function s Fkey F ks = Done s'"
  shows "\<exists>ms rs. mu_at_pack s ks = Returns ms
      \<and> F_jackknife_samples_loop (s\<lparr>Xs_mu := (Xs_mu s)(Fkey \<mapsto> F ms)\<rparr>) F ks 0 [] = Returns rs
      \<and> s' = s\<lparr>Xs_mu := (Xs_mu s)(Fkey \<mapsto> F ms),
                Xs_reduced_samples := (Xs_reduced_samples s)(Fkey \<mapsto> rs)\<rparr>"
  using absent dn
  by (auto simp add: add_function_def args_mu_loop_pack Let_def split: result.splits)

lemma add_function_missing_key:
  assumes absent: "Xs_reduced_samples s Fkey = None" "Xs_mu s Fkey = None"
    and missing: "\<exists>k\<in>set ks. Xs_mu s k = None"
  shows "add_function s Fkey F ks = Throws OutOfRange s"
  using absent missing
  by (auto simp add: add_function_def args_mu_loop_pack mu_at_pack_cases)

lemma add_function_succeeds:
  assumes absent: "Xs_reduced_samples s Fkey = None" "Xs_mu s Fkey = None"
    and present: "\<forall>k\<in>set ks. \<exists>m v. Xs_mu s k = Some m \<and> Xs_reduced_samples s k = Some v
                    \<and> N_bins s \<le> length v"
  shows "\<exists>s'. add_function s Fkey F ks = Done s'"
proof -
  let ?ms = "map (\<lambda>k. the (Xs_mu s k)) ks"
  let ?s1 = "s\<lparr>Xs_mu := (Xs_mu s)(Fkey \<mapsto> F ?ms)\<rparr>"
  have mus: "mu_at_pack s ks = Returns ?ms"
    using present by (auto simp add: mu_at_pack_cases)
  have "\<exists>ds. reduced_samples_at_pack ?s1 j ks = Returns ds" if "j < N_bins ?s1" for j
  proof -
    have "\<forall>k\<in>set ks. \<exists>v. Xs_reduced_samples ?s1 k = Some v \<and> j < length v"
      using present that by fastforce
    then show ?thesis by (simp add: reduced_samples_at_pack_cases)
  qed
  then obtain rs where "F_jackknife_samples_loop ?s1 F ks 0 [] = Returns rs"
    using F_jackknife_samples_loop_succeeds [of 0 ?s1 ks F "[]"] by blast
  then show ?thesis
    using absent mus by (simp add: add_function_def args_mu_loop_pack Let_def)
qed

lemma add_function_sum_example:
  "add_function \<lparr>N_bins = 2, bin_size = 1, Xs_reduced_samples = [0 \<mapsto> [3, 1], 1 \<mapsto> [5, 7]],
             Xs_mu = [0::nat \<mapsto> 2, 1 \<mapsto> 6]\<rparr> 2 sum_list [0, 1]
   = Done \<lparr>N_bins = 2, bin_size = 1,
            Xs_reduced_samples = [0 \<mapsto> [3, 1], 1 \<mapsto> [5, 7], 2 \<mapsto> [8, 8]],
            Xs_mu = [0 \<mapsto> 2, 1 \<mapsto> 6, 2 \<mapsto> 8]\<rparr>"
  by (simp add: add_function_def F_jackknife_samples_loop.simps)

text \<open>
  C3. For a result key that is not present: when the vector overload of \<open>add_function\<close>
  returns, every argument key has a mean, the stored mean of the result key is \<open>F\<close> applied
  to the means of the argument keys in their order, the stored series has \<open>N_bins\<close> entries,
  and entry \<open>i\<close> is \<open>F\<close> applied to the \<open>i\<close>-th replicates of the argument keys. When
  some argument key has no mean, the call throws \<open>std::out_of_range\<close> and the analyzer is
  the one before the call. When every argument key has a mean and at least \<open>N_bins\<close>
  replicates, the call returns. This holds for any number of argument keys.
\<close>

theorem add_function_mean_and_replicates:
  assumes "Xs_reduced_samples s Fkey = None" and "Xs_mu s Fkey = None"
  shows
   "(\<forall>s'. add_function s Fkey F ks = Done s' \<longrightarrow>
       (\<exists>ms. list_all2 (\<lambda>k m. mu s k = Returns m) ks ms \<and> mu s' Fkey = Returns (F ms))
     \<and> (\<exists>rs. samples s' Fkey = Returns rs \<and> length rs = N_bins s
           \<and> (\<forall>i<N_bins s. \<exists>ds.
                 list_all2 (\<lambda>k d. \<exists>v. samples s k = Returns v \<and> i < length v \<and> d = v ! i) ks ds
                 \<and> rs ! i = F ds))
     \<and> N_bins s' = N_bins s)
  \<and> ((\<exists>k\<in>set ks. Xs_mu s k = None) \<longrightarrow> add_function s Fkey F ks = Throws OutOfRange s)
  \<and> ((\<forall>k\<in>set ks. \<exists>m v. Xs_mu s k = Some m \<and> Xs_reduced_samples s k = Some v
          \<and> N_bins s \<le> length v) \<longrightarrow>
       (\<exists>s'. add_function s Fkey F ks = Done s'))"
proof -
  have done_case:
    "(\<exists>ms. list_all2 (\<lambda>k m. mu s k = Returns m) ks ms \<and> mu s' Fkey = Returns (F ms))
     \<and> (\<exists>rs. samples s' Fkey = Returns rs \<and> length rs = N_bins s
           \<and> (\<forall>i<N_bins s. \<exists>ds.
                 list_all2 (\<lambda>k d. \<exists>v. samples s k = Returns v \<and> i < length v \<and> d = v ! i) ks ds
                 \<and> rs ! i = F ds))
     \<and> N_bins s' = N_bins s"
    if dn: "add_function s Fkey F ks = Done s'" for s'
  proof -
    from add_function_DoneD [OF assms dn] obtain ms rs where
      ms: "mu_at_pack s ks = Returns ms"
      and rs: "F_jackknife_samples_loop (s\<lparr>Xs_mu := (Xs_mu s)(Fkey \<mapsto> F ms)\<rparr>) F ks 0 [] = Returns rs"
      and s': "s' = s\<lparr>Xs_mu := (Xs_mu s)(Fkey \<mapsto> F ms),
                Xs_reduced_samples := (Xs_reduced_samples s)(Fkey \<mapsto> rs)\<rparr>"
      by blast
    let ?s1 = "s\<lparr>Xs_mu := (Xs_mu s)(Fkey \<mapsto> F ms)\<rparr>"
    have "list_all2 (\<lambda>k m. Xs_mu s k = Some m) ks ms"
      using ms by (rule mu_at_pack_ReturnsD)
    then have means: "list_all2 (\<lambda>k m. mu s k = Returns m) ks ms"
      by (rule list_all2_mono) (simp add: mu_def)
    have mean: "mu s' Fkey = Returns (F ms)"
      by (simp add: s' mu_def)
    from F_jackknife_samples_loop_ReturnsD [OF rs]
    have len: "length rs = N_bins s"
      and each: "\<forall>j<N_bins s. \<exists>ds. reduced_samples_at_pack ?s1 j ks = Returns ds \<and> rs ! j = F ds"
      by simp_all
    have reps: "\<exists>ds. list_all2 (\<lambda>k d. \<exists>v. samples s k = Returns v \<and> i < length v \<and> d = v ! i) ks ds
                 \<and> rs ! i = F ds" if "i < N_bins s" for i
    proof -
      from each that obtain ds where
        ds: "reduced_samples_at_pack ?s1 i ks = Returns ds" and v: "rs ! i = F ds" by blast
      have "reduced_samples_at_pack s i ks = Returns ds"
        using ds reduced_samples_at_pack_cong [of ?s1 s i ks] by simp
      then have "list_all2 (\<lambda>k d. \<exists>v. Xs_reduced_samples s k = Some v \<and> i < length v \<and> d = v ! i) ks ds"
        by (rule reduced_samples_at_pack_ReturnsD)
      then have "list_all2 (\<lambda>k d. \<exists>v. samples s k = Returns v \<and> i < length v \<and> d = v ! i) ks ds"
        by (rule list_all2_mono) (auto simp add: samples_def)
      with v show ?thesis by blast
    qed
    have stored: "samples s' Fkey = Returns rs"
      by (simp add: s' samples_def)
    have "N_bins s' = N_bins s" by (simp add: s')
    with means mean stored len reps show ?thesis by blast
  qed
  show ?thesis
    using done_case add_function_missing_key [OF assms] add_function_succeeds [OF assms]
    by blast
qed

theorem add_function_mean_and_replicates_witness:
  "add_function \<lparr>N_bins = 2, bin_size = 1, Xs_reduced_samples = [0 \<mapsto> [3, 1], 1 \<mapsto> [5, 7]],
             Xs_mu = [0::nat \<mapsto> 2, 1 \<mapsto> 6]\<rparr> 2 sum_list [0, 4]
     = Throws OutOfRange \<lparr>N_bins = 2, bin_size = 1,
             Xs_reduced_samples = [0 \<mapsto> [3, 1], 1 \<mapsto> [5, 7]], Xs_mu = [0::nat \<mapsto> 2, 1 \<mapsto> 6]\<rparr>
   \<and> (\<exists>s'. add_function \<lparr>N_bins = 2, bin_size = 1,
             Xs_reduced_samples = [0 \<mapsto> [3, 1], 1 \<mapsto> [5, 7]],
             Xs_mu = [0::nat \<mapsto> 2, 1 \<mapsto> 6]\<rparr> 2 sum_list [0, 1] = Done s')
   \<and> (\<exists>ms. list_all2 (\<lambda>k m. mu \<lparr>N_bins = 2, bin_size = 1,
             Xs_reduced_samples = [0 \<mapsto> [3, 1], 1 \<mapsto> [5, 7]],
             Xs_mu = [0::nat \<mapsto> 2, 1 \<mapsto> 6]\<rparr> k = Returns m) [0, 1] ms
          \<and> mu \<lparr>N_bins = 2, bin_size = 1,
            Xs_reduced_samples = [0 \<mapsto> [3, 1], 1 \<mapsto> [5, 7], 2 \<mapsto> [8, 8]],
            Xs_mu = [0::nat \<mapsto> 2, 1 \<mapsto> 6, 2 \<mapsto> 8]\<rparr> 2 = Returns (sum_list ms))"
proof -
  let ?st = "\<lparr>N_bins = 2, bin_size = 1, Xs_reduced_samples = [0 \<mapsto> [3, 1], 1 \<mapsto> [5, 7]],
             Xs_mu = [0::nat \<mapsto> 2, 1 \<mapsto> 6]\<rparr>"
  have absent: "Xs_reduced_samples ?st 2 = None" "Xs_mu ?st 2 = None"
    by simp_all
  have missing: "\<exists>k\<in>set [0, 4]. Xs_mu ?st k = None"
    by simp
  have present: "\<forall>k\<in>set [0, 1]. \<exists>m v. Xs_mu ?st k = Some m \<and> Xs_reduced_samples ?st k = Some v
          \<and> N_bins ?st \<le> length v"
    by simp
  have a: "add_function ?st 2 sum_list [0, 4] = Throws OutOfRange ?st"
    using add_function_mean_and_replicates [OF absent, of sum_list "[0, 4]"] missing by blast
  have b: "\<exists>s'. add_function ?st 2 sum_list [0, 1] = Done s'"
    using add_function_mean_and_replicates [OF absent, of sum_list "[0, 1]"] present by blast
  have c: "\<exists>ms. list_all2 (\<lambda>k m. mu ?st k = Returns m) [0, 1] ms
          \<and> mu \<lparr>N_bins = 2, bin_size = 1,
            Xs_reduced_samples = [0 \<mapsto> [3, 1], 1 \<mapsto> [5, 7], 2 \<mapsto> [8, 8]],
            Xs_mu = [0::nat \<mapsto> 2, 1 \<mapsto> 6, 2 \<mapsto> 8]\<rparr> 2 = Returns (sum_list ms)"
    using add_function_mean_and_replicates [OF absent, of sum_list "[0, 1]"]
      add_function_sum_example by blast
  show ?thesis using a b c by blast
qed

section \<open>The two overloads of \<open>add_function\<close>\<close>

lemma reduced_samples_at_pack_length:
  "reduced_samples_at_pack s i ks = Returns ds \<Longrightarrow> length ds = length ks"
  by (auto simp add: reduced_samples_at_pack_cases split: if_splits)

lemma mu_at_pack_length:
  "mu_at_pack s ks = Returns ms \<Longrightarrow> length ms = length ks"
  by (auto simp add: mu_at_pack_cases split: if_splits)

lemma pack_loop_agrees:
  assumes "\<forall>args. length args = length ks \<longrightarrow> apply_nfun G args = Returns (F args)"
  shows "F_jackknife_samples_pack_loop s G ks i acc = F_jackknife_samples_loop s F ks i acc"
  using assms
proof (induction s F ks i acc rule: F_jackknife_samples_loop.induct)
  case (1 s F ks i acc)
  show ?case
  proof (cases "i < N_bins s")
    case True
    show ?thesis
    proof (cases "reduced_samples_at_pack s i ks")
      case (Returns ds)
      then have G: "apply_nfun G ds = Returns (F ds)"
        using "1.prems" reduced_samples_at_pack_length by blast
      have args: "args_red_samples_loop s i ks [] = Returns ds"
        using Returns by (simp add: args_red_samples_loop_pack)
      have "F_jackknife_samples_pack_loop s G ks (i + 1) (acc @ [F ds])
          = F_jackknife_samples_loop s F ks (i + 1) (acc @ [F ds])"
        using "1.IH" [OF True args "1.prems"] .
      then show ?thesis
        using True Returns G args
        by (subst F_jackknife_samples_pack_loop.simps, subst F_jackknife_samples_loop.simps) simp
    next
      case (Raises e)
      then show ?thesis
        using True
        by (subst F_jackknife_samples_pack_loop.simps, subst F_jackknife_samples_loop.simps)
          (simp add: args_red_samples_loop_pack)
    next
      case Undefined
      then show ?thesis
        using True
        by (subst F_jackknife_samples_pack_loop.simps, subst F_jackknife_samples_loop.simps)
          (simp add: args_red_samples_loop_pack)
    qed
  next
    case False
    then show ?thesis
      by (subst F_jackknife_samples_pack_loop.simps, subst F_jackknife_samples_loop.simps) simp
  qed
qed

lemma plus_nfun_is_sum:
  "\<forall>args. length args = length [0::nat, 1] \<longrightarrow>
     apply_nfun (Param (\<lambda>a. Param (\<lambda>b. Value (a + b)))) args = Returns (sum_list args)"
proof (intro allI impI)
  fix args :: "real list"
  assume "length args = length [0::nat, 1]"
  then obtain a b where "args = [a, b]"
    by (auto simp add: length_Suc_conv)
  then show "apply_nfun (Param (\<lambda>a. Param (\<lambda>b. Value (a + b)))) args = Returns (sum_list args)"
    by simp
qed

text \<open>
  C9. Let \<open>G\<close> be a function of as many parameters as there are argument keys, and \<open>F\<close> the
  function of a vector that applies \<open>G\<close> to the entries of the vector. Then the variadic
  overload with \<open>G\<close> and the vector overload with \<open>F\<close> have the same outcome on every
  analyzer: the same stored mean and replicates when they return, the same exception and the
  same analyzer when they throw.
\<close>

theorem add_function_overloads_agree:
  assumes "\<forall>args. length args = length ks \<longrightarrow> apply_nfun G args = Returns (F args)"
  shows "add_function_variadic s Fkey G ks = add_function s Fkey F ks"
proof (cases "mu_at_pack s ks")
  case (Returns ms)
  then have G: "apply_nfun G ms = Returns (F ms)"
    using assms mu_at_pack_length by blast
  show ?thesis
    using Returns G pack_loop_agrees [OF assms]
    by (simp add: add_function_variadic_def add_function_def args_mu_loop_pack)
next
  case (Raises e)
  then show ?thesis
    by (simp add: add_function_variadic_def add_function_def args_mu_loop_pack)
next
  case Undefined
  then show ?thesis
    by (simp add: add_function_variadic_def add_function_def args_mu_loop_pack)
qed

theorem add_function_overloads_agree_witness:
  "add_function_variadic \<lparr>N_bins = 2, bin_size = 1,
       Xs_reduced_samples = [0 \<mapsto> [3, 1], 1 \<mapsto> [5, 7]], Xs_mu = [0::nat \<mapsto> 2, 1 \<mapsto> 6]\<rparr>
     2 (Param (\<lambda>a. Param (\<lambda>b. Value (a + b)))) [0, 1]
   = Done \<lparr>N_bins = 2, bin_size = 1,
            Xs_reduced_samples = [0 \<mapsto> [3, 1], 1 \<mapsto> [5, 7], 2 \<mapsto> [8, 8]],
            Xs_mu = [0 \<mapsto> 2, 1 \<mapsto> 6, 2 \<mapsto> 8]\<rparr>"
  using add_function_overloads_agree [OF plus_nfun_is_sum] add_function_sum_example
  by simp

section \<open>The bin count over sequences of calls\<close>

lemma resample_N_bins:
  "N_bins s \<noteq> 0 \<Longrightarrow> state_after (resample s k Xs) = Some s' \<Longrightarrow>
   N_bins s' = N_bins s \<and> bin_size s' = bin_size s"
  by (auto simp add: resample_def init_or_verify_N_def Let_def
      split: if_splits outcome.splits result.splits)

lemma add_resampled_N_bins:
  "N_bins s \<noteq> 0 \<Longrightarrow> state_after (add_resampled s k Xs m) = Some s' \<Longrightarrow>
   N_bins s' = N_bins s \<and> bin_size s' = bin_size s"
  by (auto simp add: add_resampled_def init_or_verify_N_def Let_def
      split: if_splits outcome.splits)

lemma add_function_N_bins:
  "state_after (add_function s k F ks) = Some s' \<Longrightarrow>
   N_bins s' = N_bins s \<and> bin_size s' = bin_size s"
  by (auto simp add: add_function_def Let_def split: if_splits result.splits)

lemma add_function_variadic_N_bins:
  "state_after (add_function_variadic s k G ks) = Some s' \<Longrightarrow>
   N_bins s' = N_bins s \<and> bin_size s' = bin_size s"
  by (auto simp add: add_function_variadic_def Let_def split: if_splits result.splits)

lemma exec_N_bins:
  assumes "N_bins s \<noteq> 0" and "state_after (exec s c) = Some s'"
  shows "N_bins s' = N_bins s \<and> bin_size s' = bin_size s"
proof (cases c)
  case (Resample k Xs)
  then show ?thesis using assms resample_N_bins [of s k Xs s'] by simp
next
  case (Add_resampled k Xs m)
  then show ?thesis using assms add_resampled_N_bins [of s k Xs m s'] by simp
next
  case (Add_function k F ks)
  then show ?thesis using assms add_function_N_bins [of s k F ks s'] by simp
next
  case (Add_function_variadic k G ks)
  then show ?thesis using assms add_function_variadic_N_bins [of s k G ks s'] by simp
next
  case (Remove k)
  then show ?thesis using assms by (auto simp add: remove_def)
qed

lemma run_N_bins:
  "N_bins s \<noteq> 0 \<Longrightarrow> run s cs = Some s' \<Longrightarrow> N_bins s' = N_bins s \<and> bin_size s' = bin_size s"
proof (induction cs arbitrary: s)
  case Nil
  then show ?case by simp
next
  case (Cons c cs)
  from Cons.prems(2) obtain s1 where s1: "state_after (exec s c) = Some s1" and r: "run s1 cs = Some s'"
    by (auto split: option.splits)
  from exec_N_bins [OF Cons.prems(1) s1] have eq: "N_bins s1 = N_bins s" "bin_size s1 = bin_size s"
    by simp_all
  then have "N_bins s1 \<noteq> 0" using Cons.prems(1) by simp
  from Cons.IH [OF this r] eq show ?case by simp
qed

lemma run_Remove:
  "run s (map Remove ks) = Some s' \<Longrightarrow>
   Xs_mu s' = (\<lambda>k. if k \<in> set ks then None else Xs_mu s k)
   \<and> Xs_reduced_samples s' = (\<lambda>k. if k \<in> set ks then None else Xs_reduced_samples s k)"
proof (induction ks arbitrary: s)
  case Nil
  then show ?case by simp
next
  case (Cons k ks)
  then have "run (remove s k) (map Remove ks) = Some s'" by simp
  from Cons.IH [OF this] show ?case
    by (auto simp add: remove_def fun_eq_iff)
qed

lemma run_Remove_total: "\<exists>s'. run s (map Remove ks) = Some s'"
  by (induction ks arbitrary: s) simp_all

text \<open>
  C10. Once \<open>N_bins\<close> is set, it has the same value after any sequence of calls, whether
  they return or throw. In particular, removing every key leaves an analyzer with no
  datasets and the old bin count, and a dataset whose bin count differs is still rejected:
  \<open>resample\<close> and \<open>add_resampled\<close> throw the runtime error for a different number of
  bins and change nothing.
\<close>

theorem bin_count_is_permanent:
  "(N_bins s \<noteq> 0 \<and> run s cs = Some s' \<longrightarrow> N_bins s' = N_bins s)
   \<and> (\<exists>s''. run s (map Remove ks) = Some s''
         \<and> (N_bins s \<noteq> 0 \<and> dom (Xs_mu s) \<union> dom (Xs_reduced_samples s) \<subseteq> set ks \<longrightarrow>
              Xs_mu s'' = Map.empty \<and> Xs_reduced_samples s'' = Map.empty
              \<and> N_bins s'' = N_bins s
              \<and> (0 < bin_size s \<and> length Xs div bin_size s \<noteq> N_bins s \<longrightarrow>
                   resample s'' k Xs = Throws (RuntimeError different_number_of_bins) s'')
              \<and> (length Xs \<noteq> N_bins s \<longrightarrow>
                   add_resampled s'' k Xs m = Throws (RuntimeError different_number_of_bins) s'')))"
proof -
  have first: "N_bins s \<noteq> 0 \<and> run s cs = Some s' \<longrightarrow> N_bins s' = N_bins s"
    using run_N_bins by blast
  obtain s'' where r: "run s (map Remove ks) = Some s''"
    using run_Remove_total by blast
  have second: "Xs_mu s'' = Map.empty \<and> Xs_reduced_samples s'' = Map.empty
              \<and> N_bins s'' = N_bins s
              \<and> (0 < bin_size s \<and> length Xs div bin_size s \<noteq> N_bins s \<longrightarrow>
                   resample s'' k Xs = Throws (RuntimeError different_number_of_bins) s'')
              \<and> (length Xs \<noteq> N_bins s \<longrightarrow>
                   add_resampled s'' k Xs m = Throws (RuntimeError different_number_of_bins) s'')"
    if N: "N_bins s \<noteq> 0" and all: "dom (Xs_mu s) \<union> dom (Xs_reduced_samples s) \<subseteq> set ks"
  proof -
    from run_Remove [OF r] have maps:
      "Xs_mu s'' = (\<lambda>k. if k \<in> set ks then None else Xs_mu s k)"
      "Xs_reduced_samples s'' = (\<lambda>k. if k \<in> set ks then None else Xs_reduced_samples s k)"
      by simp_all
    have e1: "Xs_mu s'' = Map.empty"
      using all by (auto simp add: maps fun_eq_iff)
    have e2: "Xs_reduced_samples s'' = Map.empty"
      using all by (auto simp add: maps fun_eq_iff)
    from run_N_bins [OF N r] have keep: "N_bins s'' = N_bins s" "bin_size s'' = bin_size s"
      by simp_all
    have absent: "Xs_reduced_samples s'' k = None" "Xs_mu s'' k = None"
      by (simp_all add: e1 e2)
    have raw: "resample s'' k Xs = Throws (RuntimeError different_number_of_bins) s''"
      if "0 < bin_size s" "length Xs div bin_size s \<noteq> N_bins s"
      using that absent keep N by (simp add: resample_def init_or_verify_N_raw)
    have res: "add_resampled s'' k Xs m = Throws (RuntimeError different_number_of_bins) s''"
      if "length Xs \<noteq> N_bins s"
      using that keep N by (simp add: add_resampled_outcome [OF absent])
    show ?thesis using e1 e2 keep raw res by blast
  qed
  show ?thesis using first r second by blast
qed

theorem bin_count_is_permanent_witness:
  "N_bins (remove \<lparr>N_bins = 2, bin_size = 1, Xs_reduced_samples = [0 \<mapsto> [3, 1]],
             Xs_mu = [0::nat \<mapsto> 2]\<rparr> 0) = 2
   \<and> Xs_mu (remove \<lparr>N_bins = 2, bin_size = 1, Xs_reduced_samples = [0 \<mapsto> [3, 1]],
             Xs_mu = [0::nat \<mapsto> 2]\<rparr> 0) = Map.empty
   \<and> resample (remove \<lparr>N_bins = 2, bin_size = 1, Xs_reduced_samples = [0 \<mapsto> [3, 1]],
             Xs_mu = [0::nat \<mapsto> 2]\<rparr> 0) 1 [1, 2, 3]
      = Throws (RuntimeError different_number_of_bins)
          (remove \<lparr>N_bins = 2, bin_size = 1, Xs_reduced_samples = [0 \<mapsto> [3, 1]],
             Xs_mu = [0::nat \<mapsto> 2]\<rparr> 0)
   \<and> add_resampled (remove \<lparr>N_bins = 2, bin_size = 1, Xs_reduced_samples = [0 \<mapsto> [3, 1]],
             Xs_mu = [0::nat \<mapsto> 2]\<rparr> 0) 1 [1, 2, 3] 2
      = Throws (RuntimeError different_number_of_bins)
          (remove \<lparr>N_bins = 2, bin_size = 1, Xs_reduced_samples = [0 \<mapsto> [3, 1]],
             Xs_mu = [0::nat \<mapsto> 2]\<rparr> 0)"
proof -
  let ?st = "\<lparr>N_bins = 2, bin_size = 1, Xs_reduced_samples = [0 \<mapsto> [3, 1]],
             Xs_mu = [0::nat \<mapsto> 2]\<rparr>"
  have r: "run ?st (map Remove [0]) = Some (remove ?st 0)"
    by simp
  have pre: "N_bins ?st \<noteq> 0 \<and> dom (Xs_mu ?st) \<union> dom (Xs_reduced_samples ?st) \<subseteq> set [0]"
    by simp
  have raw: "0 < bin_size ?st \<and> length [1, 2, 3 :: real] div bin_size ?st \<noteq> N_bins ?st"
    by simp
  have res: "length [1, 2, 3 :: real] \<noteq> N_bins ?st"
    by simp
  have N: "N_bins ?st = 2" by simp
  from bin_count_is_permanent [of ?st "[Remove 0]" "remove ?st 0" "[0]" "[1, 2, 3]" 1 2]
  show ?thesis
    unfolding r using pre raw res N by (metis option.inject)
qed

section \<open>Joint presence and the length of the series\<close>

text \<open>
  C6 on the code. On an analyzer without a bin count, \<open>add_function\<close> with no argument
  keys stores a mean and an empty replicate series. A later \<open>resample\<close> sets \<open>N_bins\<close>
  to 3, so that key 0 has a series of length 0 in an analyzer with 3 bins. A further
  \<open>add_function\<close> over key 0 stores the mean of its result and then throws at
  \<open>at(0)\<close> of the empty series: key 2 is left in \<open>Xs_mu\<close> and not in
  \<open>Xs_reduced_samples\<close>.
\<close>

theorem zero_argument_function_breaks_invariant:
  "run (JackknifeAnalyzer 1)
     [Add_function (0::nat) (\<lambda>args. 7) [], Resample 1 [1, 2, 3], Add_function 2 sum_list [0]]
   = Some \<lparr>N_bins = 3, bin_size = 1,
           Xs_reduced_samples = [0 \<mapsto> [], 1 \<mapsto> [5 / 2, 2, 3 / 2]],
           Xs_mu = [0 \<mapsto> 7, 1 \<mapsto> 2, 2 \<mapsto> 7]\<rparr>"
proof -
  let ?a = "\<lparr>N_bins = 0, bin_size = 1, Xs_reduced_samples = [0::nat \<mapsto> []],
             Xs_mu = [0 \<mapsto> 7]\<rparr>"
  let ?b = "\<lparr>N_bins = 3, bin_size = 1,
           Xs_reduced_samples = [0::nat \<mapsto> [], 1 \<mapsto> [5 / 2, 2, 3 / 2]],
           Xs_mu = [0 \<mapsto> 7, 1 \<mapsto> 2]\<rparr>"
  let ?c = "\<lparr>N_bins = 3, bin_size = 1,
           Xs_reduced_samples = [0::nat \<mapsto> [], 1 \<mapsto> [5 / 2, 2, 3 / 2]],
           Xs_mu = [0 \<mapsto> 7, 1 \<mapsto> 2, 2 \<mapsto> 7]\<rparr>"
  have a: "add_function (JackknifeAnalyzer 1) (0::nat) (\<lambda>args. 7) [] = Done ?a"
    by (simp add: add_function_def JackknifeAnalyzer_def F_jackknife_samples_loop.simps)
  have b: "resample ?a 1 [1, 2, 3] = Done ?b"
    by (simp add: resample_accepts_gen registered_raw_def upt_rec)
  have c: "add_function ?b 2 sum_list [0] = Throws OutOfRange ?c"
    by (simp add: add_function_def F_jackknife_samples_loop.simps)
  show ?thesis
    using a b c by simp
qed

text \<open>
  What does hold: joint presence is kept by every sequence of calls in which
  \<open>add_function\<close> is always given at least one argument key, whether the calls return or
  throw. A fresh analyzer has it.
\<close>

lemma consistent_JackknifeAnalyzer: "consistent (JackknifeAnalyzer b)"
  by (simp add: consistent_def JackknifeAnalyzer_def)

lemma consistent_insert:
  assumes "consistent s" and "length v = N_bins s" and "N_bins s \<noteq> 0"
  shows "consistent (s\<lparr>Xs_mu := (Xs_mu s)(k \<mapsto> m),
                       Xs_reduced_samples := (Xs_reduced_samples s)(k \<mapsto> v)\<rparr>)"
  using assms by (auto simp add: consistent_def)

lemma consistent_first:
  assumes "consistent s" and "N_bins s = 0" and "length v = n" and "1 < n"
  shows "consistent (s\<lparr>N_bins := n, Xs_mu := (Xs_mu s)(k \<mapsto> m),
                       Xs_reduced_samples := (Xs_reduced_samples s)(k \<mapsto> v)\<rparr>)"
proof -
  have "Xs_reduced_samples s k' = None" for k'
    using assms(1,2) by (auto simp add: consistent_def dom_def)
  then show ?thesis
    using assms by (auto simp add: consistent_def)
qed

lemma consistent_remove: "consistent s \<Longrightarrow> consistent (remove s k)"
  by (auto simp add: consistent_def remove_def dom_def)

lemma consistent_resample:
  assumes c: "consistent s" and st: "state_after (resample s k Xs) = Some s'"
  shows "consistent s'"
proof (cases "Xs_reduced_samples s k = None \<and> Xs_mu s k = None")
  case False
  then have "resample s k Xs = Done s" by (auto simp add: resample_def)
  then show ?thesis using c st by simp
next
  case True
  then have absent: "Xs_reduced_samples s k = None" "Xs_mu s k = None" by simp_all
  show ?thesis
  proof (cases "resample s k Xs")
    case (Done s1)
    then have s1: "s1 = s'" using st by simp
    from resample_DoneD [OF absent Done]
    have s': "s' = registered_raw s k Xs"
      and N: "N_bins s = 0 \<and> 1 < length Xs div bin_size s
              \<or> N_bins s \<noteq> 0 \<and> N_bins s = length Xs div bin_size s"
      using s1 by simp_all
    let ?n = "length Xs div bin_size s"
    let ?v = "map (\<lambda>j. (sum_list Xs - sum_list (take (bin_size s) (drop (j * bin_size s) Xs)))
                    / real (length Xs - bin_size s)) [0..<?n]"
    have len: "length ?v = ?n" by simp
    from N show ?thesis
    proof
      assume "N_bins s = 0 \<and> 1 < ?n"
      then show ?thesis
        using consistent_first [OF c _ len, of k "sum_list Xs / real (length Xs)"]
        by (simp add: s' registered_raw_def)
    next
      assume a: "N_bins s \<noteq> 0 \<and> N_bins s = ?n"
      then have "s\<lparr>N_bins := ?n\<rparr> = s" by simp
      then have eq: "registered_raw s k Xs
          = s\<lparr>Xs_mu := (Xs_mu s)(k \<mapsto> sum_list Xs / real (length Xs)),
               Xs_reduced_samples := (Xs_reduced_samples s)(k \<mapsto> ?v)\<rparr>"
        using a by (simp add: registered_raw_def)
      show ?thesis
        using consistent_insert [OF c, of ?v k "sum_list Xs / real (length Xs)"] a
        by (simp add: s' eq)
    qed
  next
    case (Throws e s1)
    then show ?thesis using c st resample_ThrowsD [of s k Xs e s1] by simp
  next
    case No_Behaviour
    then show ?thesis using st by simp
  qed
qed

lemma consistent_add_resampled:
  assumes c: "consistent s" and st: "state_after (add_resampled s k Xs m) = Some s'"
  shows "consistent s'"
proof (cases "Xs_reduced_samples s k = None \<and> Xs_mu s k = None")
  case False
  then have "add_resampled s k Xs m = Done s" by (auto simp add: add_resampled_def)
  then show ?thesis using c st by simp
next
  case True
  then have absent: "Xs_reduced_samples s k = None" "Xs_mu s k = None" by simp_all
  consider (new) "N_bins s = 0" "1 < length Xs"
    | (few) "N_bins s = 0" "\<not> 1 < length Xs"
    | (diff) "N_bins s \<noteq> 0" "length Xs \<noteq> N_bins s"
    | (same) "N_bins s \<noteq> 0" "length Xs = N_bins s"
    by blast
  then show ?thesis
  proof cases
    case new
    then have "s' = s\<lparr>N_bins := length Xs, Xs_mu := (Xs_mu s)(k \<mapsto> m),
                       Xs_reduced_samples := (Xs_reduced_samples s)(k \<mapsto> Xs)\<rparr>"
      using st by (auto simp add: add_resampled_outcome [OF absent])
    then show ?thesis using consistent_first [OF c new(1) refl new(2), of k m] by simp
  next
    case few
    then show ?thesis using c st by (simp add: add_resampled_outcome [OF absent])
  next
    case diff
    then show ?thesis using c st by (simp add: add_resampled_outcome [OF absent])
  next
    case same
    then have "s' = s\<lparr>Xs_mu := (Xs_mu s)(k \<mapsto> m),
                       Xs_reduced_samples := (Xs_reduced_samples s)(k \<mapsto> Xs)\<rparr>"
      using st by (auto simp add: add_resampled_outcome [OF absent])
    then show ?thesis using consistent_insert [OF c same(2) same(1), of k m] by simp
  qed
qed

lemma consistent_arguments:
  assumes c: "consistent s" and mus: "\<forall>k\<in>set ks. Xs_mu s k \<noteq> None"
  shows "\<forall>k\<in>set ks. \<exists>m v. Xs_mu s k = Some m \<and> Xs_reduced_samples s k = Some v
            \<and> N_bins s \<le> length v"
proof
  fix k assume "k \<in> set ks"
  then obtain m where m: "Xs_mu s k = Some m" using mus by auto
  then have "k \<in> dom (Xs_reduced_samples s)" using c by (auto simp add: consistent_def)
  then obtain v where v: "Xs_reduced_samples s k = Some v" by auto
  then have "length v = N_bins s" using c by (simp add: consistent_def)
  with m v show "\<exists>m v. Xs_mu s k = Some m \<and> Xs_reduced_samples s k = Some v \<and> N_bins s \<le> length v"
    by simp
qed

lemma consistent_add_function:
  assumes c: "consistent s" and ne: "ks \<noteq> []"
    and st: "state_after (add_function s k F ks) = Some s'"
  shows "consistent s'"
proof (cases "Xs_reduced_samples s k = None \<and> Xs_mu s k = None")
  case False
  then have "add_function s k F ks = Done s" by (auto simp add: add_function_def)
  then show ?thesis using c st by simp
next
  case True
  then have absent: "Xs_reduced_samples s k = None" "Xs_mu s k = None" by simp_all
  show ?thesis
  proof (cases "\<exists>a\<in>set ks. Xs_mu s a = None")
    case True
    then show ?thesis using c st add_function_missing_key [OF absent True, of F] by simp
  next
    case False
    then have mus: "\<forall>a\<in>set ks. Xs_mu s a \<noteq> None" by simp
    from ne obtain a where "a \<in> set ks" by (cases ks) auto
    then have "dom (Xs_mu s) \<noteq> {}" using mus by auto
    then have N: "N_bins s \<noteq> 0" using c by (auto simp add: consistent_def)
    from add_function_succeeds [OF absent consistent_arguments [OF c mus], of F]
    obtain s1 where dn: "add_function s k F ks = Done s1" by blast
    then have s1: "s1 = s'" using st by simp
    from add_function_DoneD [OF absent dn] obtain ms rs where
      rs: "F_jackknife_samples_loop (s\<lparr>Xs_mu := (Xs_mu s)(k \<mapsto> F ms)\<rparr>) F ks 0 [] = Returns rs"
      and s': "s' = s\<lparr>Xs_mu := (Xs_mu s)(k \<mapsto> F ms),
                Xs_reduced_samples := (Xs_reduced_samples s)(k \<mapsto> rs)\<rparr>"
      using s1 by blast
    from F_jackknife_samples_loop_ReturnsD [OF rs] have "length rs = N_bins s" by simp
    from consistent_insert [OF c this N, of k "F ms"] show ?thesis by (simp add: s')
  qed
qed

lemma F_jackknife_samples_pack_loop_length:
  "F_jackknife_samples_pack_loop s G ks i acc = Returns rs \<Longrightarrow> i \<le> N_bins s \<Longrightarrow>
   length rs = length acc + (N_bins s - i)"
proof (induction s G ks i acc arbitrary: rs rule: F_jackknife_samples_pack_loop.induct)
  case (1 s G ks i acc)
  show ?case
  proof (cases "i < N_bins s")
    case True
    from "1.prems"(1) True obtain ds v where
      ds: "reduced_samples_at_pack s i ks = Returns ds" and v: "apply_nfun G ds = Returns v"
      and rec: "F_jackknife_samples_pack_loop s G ks (i + 1) (acc @ [v]) = Returns rs"
      by (subst (asm) F_jackknife_samples_pack_loop.simps) (auto split: result.splits)
    from "1.IH" [OF True ds v rec] True show ?thesis by simp
  next
    case False
    then show ?thesis
      using "1.prems" by (subst (asm) F_jackknife_samples_pack_loop.simps) simp
  qed
qed

lemma F_jackknife_samples_pack_loop_no_raise:
  "\<forall>j. i \<le> j \<and> j < N_bins s \<longrightarrow> (\<exists>ds. reduced_samples_at_pack s j ks = Returns ds) \<Longrightarrow>
   F_jackknife_samples_pack_loop s G ks i acc \<noteq> Raises e"
proof (induction s G ks i acc rule: F_jackknife_samples_pack_loop.induct)
  case (1 s G ks i acc)
  show ?case
  proof (cases "i < N_bins s")
    case True
    with "1.prems" obtain ds where ds: "reduced_samples_at_pack s i ks = Returns ds" by auto
    have G: "apply_nfun G ds \<noteq> Raises e'" for e'
    proof (induction G arbitrary: ds)
      case (Value x)
      then show ?case by (simp split: list.splits)
    next
      case (Param f)
      then show ?case by (auto split: list.splits)
    qed
    show ?thesis
    proof (cases "apply_nfun G ds")
      case (Returns v)
      have "F_jackknife_samples_pack_loop s G ks (i + 1) (acc @ [v]) \<noteq> Raises e"
        using "1.IH" [OF True ds Returns] "1.prems" by simp
      then show ?thesis
        using True ds Returns by (subst F_jackknife_samples_pack_loop.simps) simp
    next
      case (Raises e')
      then show ?thesis using G by simp
    next
      case Undefined
      then show ?thesis
        using True ds by (subst F_jackknife_samples_pack_loop.simps) simp
    qed
  next
    case False
    then show ?thesis by (subst F_jackknife_samples_pack_loop.simps) simp
  qed
qed

lemma apply_nfun_no_raise: "apply_nfun G ds \<noteq> Raises e"
proof (induction G arbitrary: ds)
  case (Value x)
  then show ?case by (simp split: list.splits)
next
  case (Param f)
  then show ?case by (auto split: list.splits)
qed

lemma consistent_add_function_variadic:
  assumes c: "consistent s" and ne: "ks \<noteq> []"
    and st: "state_after (add_function_variadic s k G ks) = Some s'"
  shows "consistent s'"
proof (cases "Xs_reduced_samples s k = None \<and> Xs_mu s k = None")
  case False
  then have "add_function_variadic s k G ks = Done s"
    by (auto simp add: add_function_variadic_def)
  then show ?thesis using c st by simp
next
  case True
  then have absent: "Xs_reduced_samples s k = None" "Xs_mu s k = None" by simp_all
  show ?thesis
  proof (cases "\<exists>a\<in>set ks. Xs_mu s a = None")
    case True
    then have "add_function_variadic s k G ks = Throws OutOfRange s"
      using absent by (auto simp add: add_function_variadic_def mu_at_pack_cases)
    then show ?thesis using c st by simp
  next
    case False
    then have mus: "\<forall>a\<in>set ks. Xs_mu s a \<noteq> None" by simp
    from ne obtain a where "a \<in> set ks" by (cases ks) auto
    then have "dom (Xs_mu s) \<noteq> {}" using mus by auto
    then have N: "N_bins s \<noteq> 0" using c by (auto simp add: consistent_def)
    let ?ms = "map (\<lambda>k. the (Xs_mu s k)) ks"
    have pack: "mu_at_pack s ks = Returns ?ms"
      using mus by (simp add: mu_at_pack_cases)
    show ?thesis
    proof (cases "apply_nfun G ?ms")
      case (Returns F_mu)
      let ?s1 = "s\<lparr>Xs_mu := (Xs_mu s)(k \<mapsto> F_mu)\<rparr>"
      have args: "\<exists>ds. reduced_samples_at_pack ?s1 j ks = Returns ds" if "j < N_bins ?s1" for j
      proof -
        have "\<forall>a\<in>set ks. \<exists>v. Xs_reduced_samples ?s1 a = Some v \<and> j < length v"
          using consistent_arguments [OF c mus] that by fastforce
        then show ?thesis by (simp add: reduced_samples_at_pack_cases)
      qed
      show ?thesis
      proof (cases "F_jackknife_samples_pack_loop ?s1 G ks 0 []")
        case (Returns rs)
        then have "length rs = N_bins s"
          using F_jackknife_samples_pack_loop_length [OF Returns] by simp
        moreover have "s' = s\<lparr>Xs_mu := (Xs_mu s)(k \<mapsto> F_mu),
                Xs_reduced_samples := (Xs_reduced_samples s)(k \<mapsto> rs)\<rparr>"
          using st absent pack \<open>apply_nfun G ?ms = Returns F_mu\<close> Returns
          by (simp add: add_function_variadic_def)
        ultimately show ?thesis using consistent_insert [OF c _ N, of rs k F_mu] by simp
      next
        case (Raises e)
        then show ?thesis
          using F_jackknife_samples_pack_loop_no_raise [of 0 ?s1 ks G "[]" e] args by auto
      next
        case Undefined
        then show ?thesis
          using st absent pack \<open>apply_nfun G ?ms = Returns F_mu\<close>
          by (simp add: add_function_variadic_def)
      qed
    next
      case (Raises e)
      then show ?thesis using apply_nfun_no_raise by blast
    next
      case Undefined
      then show ?thesis
        using st absent pack by (simp add: add_function_variadic_def)
    qed
  qed
qed

lemma consistent_exec:
  assumes "consistent s" and "with_arguments c" and "state_after (exec s c) = Some s'"
  shows "consistent s'"
proof (cases c)
  case (Resample k Xs)
  then show ?thesis using assms consistent_resample [of s k Xs s'] by simp
next
  case (Add_resampled k Xs m)
  then show ?thesis using assms consistent_add_resampled [of s k Xs m s'] by simp
next
  case (Add_function k F ks)
  then show ?thesis using assms consistent_add_function [of s ks k F s'] by simp
next
  case (Add_function_variadic k G ks)
  then show ?thesis using assms consistent_add_function_variadic [of s ks k G s'] by simp
next
  case (Remove k)
  then show ?thesis using assms consistent_remove [of s k] by auto
qed

lemma consistent_run:
  "consistent s \<Longrightarrow> list_all with_arguments cs \<Longrightarrow> run s cs = Some s' \<Longrightarrow> consistent s'"
proof (induction cs arbitrary: s)
  case Nil
  then show ?case by simp
next
  case (Cons c cs)
  from Cons.prems(3) obtain s1 where s1: "state_after (exec s c) = Some s1"
    and r: "run s1 cs = Some s'"
    by (auto split: option.splits)
  have "consistent s1" using consistent_exec [OF Cons.prems(1) _ s1] Cons.prems(2) by simp
  from Cons.IH [OF this _ r] Cons.prems(2) show ?case by simp
qed

lemma consistent_registered:
  "consistent s \<Longrightarrow> Xs_mu s k = Some m \<Longrightarrow>
   1 < N_bins s \<and> (\<exists>v. Xs_reduced_samples s k = Some v \<and> length v = N_bins s)"
proof -
  assume c: "consistent s" and m: "Xs_mu s k = Some m"
  then have "k \<in> dom (Xs_reduced_samples s)" by (auto simp add: consistent_def)
  then obtain v where v: "Xs_reduced_samples s k = Some v" by auto
  have "dom (Xs_mu s) \<noteq> {}" using m by auto
  then have "N_bins s \<noteq> 0" "N_bins s \<noteq> 1" using c by (auto simp add: consistent_def)
  then have "1 < N_bins s" by simp
  moreover have "length v = N_bins s" using c v by (simp add: consistent_def)
  ultimately show ?thesis using v by simp
qed

end
